theory Spec2Isabelle
  imports Main "HOL-Library.Sublist"
begin

section \<open>JavaScript values seen by the retry helper\<close>

text \<open>
  \<^verbatim>\<open>isRetryableError\<close> receives \<^verbatim>\<open>error: any\<close>. The model keeps the value
  shapes the function can tell apart: the primitives, and objects as association lists
  from property names to values. Numbers are the integers plus \<^verbatim>\<open>NaN\<close> (HTTP status
  codes and millisecond delays; fractions are outside the model).
\<close>

datatype jsval =
    JUndefined
  | JNull
  | JBool bool
  | JNum int
  | JNaN
  | JStr string
  | JObj "(string \<times> jsval) list"

text \<open>\<^verbatim>\<open>v?.k\<close>: a property read that yields \<^verbatim>\<open>undefined\<close> on \<^verbatim>\<open>null\<close>,
  \<^verbatim>\<open>undefined\<close>, on a primitive (none of which has a \<^verbatim>\<open>status\<close>, \<^verbatim>\<open>response\<close> or
  \<^verbatim>\<open>message\<close> property) and on an object without the key.\<close>

fun getProp :: "jsval \<Rightarrow> string \<Rightarrow> jsval" where
  "getProp (JObj kvs) k = (case map_of kvs k of Some v \<Rightarrow> v | None \<Rightarrow> JUndefined)"
| "getProp v k = JUndefined"

text \<open>JavaScript truthiness, as the \<^verbatim>\<open>&&\<close> guards use it.\<close>

fun truthy :: "jsval \<Rightarrow> bool" where
  "truthy JUndefined = False"
| "truthy JNull = False"
| "truthy (JBool b) = b"
| "truthy (JNum n) = (n \<noteq> 0)"
| "truthy JNaN = False"
| "truthy (JStr s) = (s \<noteq> [])"
| "truthy (JObj kvs) = True"

text \<open>\<^verbatim>\<open>retryableStatusCodes.includes(v)\<close> on a \<^verbatim>\<open>number[]\<close>: only a number can
  be found. The array holds integers; a \<^verbatim>\<open>NaN\<close> entry could only equal a \<^verbatim>\<open>NaN\<close>
  status, which the truthiness guard has already turned away.\<close>

fun includes_code :: "int list \<Rightarrow> jsval \<Rightarrow> bool" where
  "includes_code codes (JNum n) = (n \<in> set codes)"
| "includes_code codes v = False"

text \<open>\<^verbatim>\<open>typeof v === 'string' && v.includes(sub)\<close>.\<close>

fun string_includes :: "jsval \<Rightarrow> string \<Rightarrow> bool" where
  "string_includes (JStr s) sub = sublist sub s"
| "string_includes v sub = False"

definition isRetryableError :: "jsval \<Rightarrow> int list \<Rightarrow> bool" where
  "isRetryableError error retryableStatusCodes =
     (if truthy (getProp error ''status'')
         \<and> includes_code retryableStatusCodes (getProp error ''status'') then True
      else if truthy (getProp (getProp error ''response'') ''status'')
         \<and> includes_code retryableStatusCodes (getProp (getProp error ''response'') ''status'')
      then True
      else if truthy (getProp error ''message'')
         \<and> string_includes (getProp error ''message'') ''429'' then True
      else False)"

section \<open>Retry with exponential backoff\<close>

text \<open>\<^verbatim>\<open>RetryConfig\<close>: every field optional; \<^verbatim>\<open>None\<close> is an absent key.\<close>

record RetryConfig =
  maxRetries :: "int option"
  initialDelayMs :: "int option"
  maxDelayMs :: "int option"
  backoffMultiplier :: "int option"
  retryableStatusCodes :: "int list option"

definition noConfig :: RetryConfig where
  "noConfig = \<lparr> maxRetries = None, initialDelayMs = None, maxDelayMs = None,
                backoffMultiplier = None, retryableStatusCodes = None \<rparr>"

text \<open>\<^verbatim>\<open>Required<RetryConfig>\<close>, the configuration after the defaults are merged in.\<close>

record ResolvedConfig =
  r_maxRetries :: int
  r_initialDelayMs :: int
  r_maxDelayMs :: int
  r_backoffMultiplier :: int
  r_retryableStatusCodes :: "int list"

definition defaultRetryConfig :: ResolvedConfig where
  "defaultRetryConfig = \<lparr> r_maxRetries = 3, r_initialDelayMs = 1000, r_maxDelayMs = 10000,
      r_backoffMultiplier = 2, r_retryableStatusCodes = [429, 503, 504] \<rparr>"

text \<open>\<^verbatim>\<open>{ ...defaultRetryConfig, ...config }\<close>\<close>

definition mergeConfig :: "RetryConfig \<Rightarrow> ResolvedConfig" where
  "mergeConfig config =
     \<lparr> r_maxRetries = (case maxRetries config of Some v \<Rightarrow> v
                         | None \<Rightarrow> r_maxRetries defaultRetryConfig),
       r_initialDelayMs = (case initialDelayMs config of Some v \<Rightarrow> v
                         | None \<Rightarrow> r_initialDelayMs defaultRetryConfig),
       r_maxDelayMs = (case maxDelayMs config of Some v \<Rightarrow> v
                         | None \<Rightarrow> r_maxDelayMs defaultRetryConfig),
       r_backoffMultiplier = (case backoffMultiplier config of Some v \<Rightarrow> v
                         | None \<Rightarrow> r_backoffMultiplier defaultRetryConfig),
       r_retryableStatusCodes = (case retryableStatusCodes config of Some v \<Rightarrow> v
                         | None \<Rightarrow> r_retryableStatusCodes defaultRetryConfig) \<rparr>"

text \<open>
  The delays are JavaScript numbers, that is doubles; the model has the integer-valued
  ones. \<^verbatim>\<open>Number.isSafeInteger\<close> holds of the integers up to \<^verbatim>\<open>2^53 - 1\<close> in magnitude;
  every one of them is a double. Beyond them a double has 53 significant bits, and the
  product of two doubles is the exact product rounded to the nearest double, to the even
  one of two equally near. (A product beyond the largest double, about \<^verbatim>\<open>1.8e308\<close>, is
  infinite in the code and stays an integer here; \<^verbatim>\<open>Math.min\<close> with \<^verbatim>\<open>maxDelayMs\<close>
  replaces either by \<^verbatim>\<open>maxDelayMs\<close> when it is positive.)
\<close>

definition isSafeInteger :: "int \<Rightarrow> bool" where
  "isSafeInteger n = (\<bar>n\<bar> \<le> 9007199254740991)"

function bitLength :: "int \<Rightarrow> nat" where
  "bitLength n = (if n \<le> 0 then 0 else Suc (bitLength (n div 2)))"
  by pat_completeness auto
termination
  by (relation "measure nat") auto

declare bitLength.simps [simp del]

definition roundToDouble :: "int \<Rightarrow> int" where
  "roundToDouble x =
     (if isSafeInteger x then x
      else
        (let m = \<bar>x\<bar>;
             ulp = 2 ^ (bitLength m - 53);
             q = m div ulp;
             r = m mod ulp;
             q' = (if ulp < 2 * r \<or> (2 * r = ulp \<and> odd q) then q + 1 else q)
         in sgn x * (q' * ulp)))"

text \<open>\<^verbatim>\<open>a * b\<close> on numbers.\<close>

definition jsMultiply :: "int \<Rightarrow> int \<Rightarrow> int" where
  "jsMultiply a b = roundToDouble (a * b)"

text \<open>
  What a run of \<^verbatim>\<open>retryWithExponentialBackoff\<close> does, as a caller and a clock can
  observe it: the settled promise (\<open>Inl\<close> the thrown value, \<open>Inr\<close> the returned one), how
  many times \<^verbatim>\<open>fn\<close> was invoked, and the arguments of the \<^verbatim>\<open>sleep\<close> calls in order.
\<close>

record 'a RetryRun =
  result :: "jsval + 'a"
  calls :: nat
  sleeps :: "int list"

text \<open>
  The \<^verbatim>\<open>for\<close> loop. \<^verbatim>\<open>fn\<close> is an effectful thunk, so it is given as the outcome of
  its k-th invocation (counted from 0), each invocation settling. The loop state is the
  source's (\<open>attempt\<close>, \<open>delayMs\<close>, \<open>lastError\<close>) together with the observations so far.
\<close>

function retry_loop ::
  "ResolvedConfig \<Rightarrow> (nat \<Rightarrow> jsval + 'a) \<Rightarrow> int \<Rightarrow> int \<Rightarrow> jsval \<Rightarrow> nat \<Rightarrow> int list
    \<Rightarrow> 'a RetryRun" where
  "retry_loop c fn attempt delayMs lastError ncalls slept =
     (if attempt \<le> r_maxRetries c then
        (case fn ncalls of
           Inr v \<Rightarrow> \<lparr> result = Inr v, calls = Suc ncalls, sleeps = slept \<rparr>
         | Inl error \<Rightarrow>
             if attempt = r_maxRetries c
             then \<lparr> result = Inl error, calls = Suc ncalls, sleeps = slept \<rparr>
             else if \<not> isRetryableError error (r_retryableStatusCodes c)
             then \<lparr> result = Inl error, calls = Suc ncalls, sleeps = slept \<rparr>
             else retry_loop c fn (attempt + 1)
                    (min (jsMultiply delayMs (r_backoffMultiplier c)) (r_maxDelayMs c))
                    error (Suc ncalls) (slept @ [delayMs]))
      else \<lparr> result = Inl lastError, calls = ncalls, sleeps = slept \<rparr>)"
  by pat_completeness auto
termination
  by (relation "measure (\<lambda>(c, fn, attempt, delayMs, lastError, ncalls, slept).
        nat (r_maxRetries c + 1 - attempt))") auto

declare retry_loop.simps [simp del]

definition retryWithExponentialBackoff ::
  "(nat \<Rightarrow> jsval + 'a) \<Rightarrow> RetryConfig \<Rightarrow> 'a RetryRun" where
  "retryWithExponentialBackoff fn config =
     retry_loop (mergeConfig config) fn 0 (r_initialDelayMs (mergeConfig config))
       JUndefined 0 []"

text \<open>The backoff step \<^verbatim>\<open>Math.min(delayMs * backoffMultiplier, maxDelayMs)\<close>, and the
  delays of the first \<open>k\<close> sleeps of a run that starts with delay \<open>d\<close>.\<close>

definition next_delay :: "ResolvedConfig \<Rightarrow> int \<Rightarrow> int" where
  "next_delay c delayMs = min (jsMultiply delayMs (r_backoffMultiplier c)) (r_maxDelayMs c)"

fun backoff_delays :: "ResolvedConfig \<Rightarrow> int \<Rightarrow> nat \<Rightarrow> int list" where
  "backoff_delays c d 0 = []"
| "backoff_delays c d (Suc k) = d # backoff_delays c (next_delay c d) k"

text \<open>Operations to run the helper on: one that throws \<open>err\<close> on its first \<open>n\<close>
  invocations and returns \<open>v\<close> afterwards, one that always throws, and an error object
  that carries an HTTP status.\<close>

definition failsThenSucceeds :: "nat \<Rightarrow> jsval \<Rightarrow> 'a \<Rightarrow> nat \<Rightarrow> jsval + 'a" where
  "failsThenSucceeds n err v k = (if k < n then Inl err else Inr v)"

definition alwaysFails :: "jsval \<Rightarrow> nat \<Rightarrow> jsval + 'a" where
  "alwaysFails err k = Inl err"

definition httpError :: "int \<Rightarrow> jsval" where
  "httpError code = JObj [(''status'', JNum code)]"

section \<open>Tool call enforcer\<close>

subsection \<open>Regular expressions\<close>

text \<open>
  The four patterns use literals (compared without case, flag \<^verbatim>\<open>i\<close>), character
  classes, \<^verbatim>\<open>+\<close> on a class, \<^verbatim>\<open>?\<close>, alternation, sequence and a single capturing
  group. A text is the list of its code units, taken below 256.
\<close>

datatype regex =
    Lit string
  | CharClass "char \<Rightarrow> bool"
  | Plus "char \<Rightarrow> bool"
  | Opt regex
  | Alt regex regex
  | Seq regex regex
  | Group regex

definition toLowerAscii :: "char \<Rightarrow> char" where
  "toLowerAscii c = (if 65 \<le> (of_char c :: nat) \<and> (of_char c :: nat) \<le> 90
                     then char_of (of_char c + 32 :: nat) else c)"

text \<open>\<^verbatim>\<open>\s\<close>, which is also what \<^verbatim>\<open>trim\<close> strips: tab, line feed, vertical tab, form
  feed, carriage return, space, no-break space.\<close>

definition isWhiteSpace :: "char \<Rightarrow> bool" where
  "isWhiteSpace c = ((of_char c :: nat) \<in> {9, 10, 11, 12, 13, 32, 160})"

text \<open>The class of a backtick or a double quote, and its complement without the line
  feed.\<close>

definition isQuote :: "char \<Rightarrow> bool" where
  "isQuote c = (c = CHR 0x60 \<or> c = CHR 0x22)"

definition notQuoteOrNewline :: "char \<Rightarrow> bool" where
  "notQuoteOrNewline c = (c \<noteq> CHR 0x60 \<and> c \<noteq> CHR 0x22 \<and> c \<noteq> CHR 0x0A)"

text \<open>
  A backtracking matcher. A state is the text still to read and the capture of group 1.
  \<open>rmatch r st\<close> lists the states in which \<open>r\<close> can end when it starts in \<open>st\<close>, in the
  order the backtracking search of JavaScript tries them: the longest repetition first,
  the optional part taken before it is skipped, the left alternative before the right.
\<close>

type_synonym mstate = "string \<times> string option"

text \<open>A literal is read off the front of the text, character by character, without
  regard to case; the result is the text after it.\<close>

fun matchLit :: "string \<Rightarrow> string \<Rightarrow> string option" where
  "matchLit [] s = Some s"
| "matchLit (c # cs) [] = None"
| "matchLit (c # cs) (x # xs) =
     (if toLowerAscii x = toLowerAscii c then matchLit cs xs else None)"

fun rmatch :: "regex \<Rightarrow> mstate \<Rightarrow> mstate list" where
  "rmatch (Lit l) (s, g) = (case matchLit l s of None \<Rightarrow> [] | Some rest \<Rightarrow> [(rest, g)])"
| "rmatch (CharClass p) (s, g) =
     (case s of [] \<Rightarrow> [] | x # xs \<Rightarrow> if p x then [(xs, g)] else [])"
| "rmatch (Plus p) (s, g) =
     map (\<lambda>k. (drop k s, g)) (rev [1 ..< Suc (length (takeWhile p s))])"
| "rmatch (Opt r) st = rmatch r st @ [st]"
| "rmatch (Alt r1 r2) st = rmatch r1 st @ rmatch r2 st"
| "rmatch (Seq r1 r2) st = concat (map (rmatch r2) (rmatch r1 st))"
| "rmatch (Group r) (s, g) =
     map (\<lambda>(s', g'). (s', Some (take (length s - length s') s))) (rmatch r (s, g))"

text \<open>The match array of \<^verbatim>\<open>String.prototype.match\<close> for a pattern without the \<^verbatim>\<open>g\<close>
  flag: \<^verbatim>\<open>match[0]\<close> and \<^verbatim>\<open>match[1]\<close> (\<open>None\<close> for \<^verbatim>\<open>undefined\<close>) of the first
  alternative that succeeds at the leftmost position where one does; \<open>None\<close> is
  \<^verbatim>\<open>null\<close>.\<close>

type_synonym RegExpMatchArray = "string \<times> string option"

definition match_at :: "regex \<Rightarrow> string \<Rightarrow> RegExpMatchArray option" where
  "match_at r s = (case rmatch r (s, None) of
       [] \<Rightarrow> None
     | (rest, g) # _ \<Rightarrow> Some (take (length s - length rest) s, g))"

fun regex_match :: "regex \<Rightarrow> string \<Rightarrow> RegExpMatchArray option" where
  "regex_match r [] = match_at r []"
| "regex_match r (x # xs) =
     (case match_at r (x # xs) of Some m \<Rightarrow> Some m | None \<Rightarrow> regex_match r xs)"

text \<open>\<^verbatim>\<open>String.prototype.trim\<close>\<close>

definition trim :: "string \<Rightarrow> string" where
  "trim s = rev (dropWhile isWhiteSpace (rev (dropWhile isWhiteSpace s)))"

subsection \<open>The pattern table\<close>

datatype js_exception = TypeError

record ToolCallPattern =
  pattern :: regex
  toolName :: string
  extractParams :: "RegExpMatchArray \<Rightarrow> string \<Rightarrow> js_exception + (string \<times> string) list"

text \<open>\<^verbatim>\<open>({ key: match[1].trim() })\<close>; calling \<^verbatim>\<open>trim\<close> on \<^verbatim>\<open>undefined\<close> throws.\<close>

definition extractGroup1 ::
  "string \<Rightarrow> RegExpMatchArray \<Rightarrow> string \<Rightarrow> js_exception + (string \<times> string) list" where
  "extractGroup1 key match fullText =
     (case snd match of None \<Rightarrow> Inl TypeError | Some g \<Rightarrow> Inr [(key, trim g)])"

definition seqs :: "regex list \<Rightarrow> regex" where
  "seqs rs = foldr Seq (butlast rs) (last rs)"

definition spaces :: regex where
  "spaces = Plus isWhiteSpace"

text \<open>\<^verbatim>\<open>[`"]?([^`"\n]+)[`"]?\<close>, the tail shared by the four patterns.\<close>

definition quotedArg :: "regex list" where
  "quotedArg = [Opt (CharClass isQuote), Group (Plus notQuoteOrNewline), Opt (CharClass isQuote)]"

definition runPattern :: ToolCallPattern where
  "runPattern = \<lparr>
     pattern = seqs ([Alt (Lit ''run'') (Alt (Lit ''execute'') (Lit ''start'')), spaces,
                      Opt (seqs [Lit ''the'', spaces, Lit ''command'', spaces])] @ quotedArg),
     toolName = ''run_command'',
     extractParams = extractGroup1 ''command'' \<rparr>"

definition createPattern :: ToolCallPattern where
  "createPattern = \<lparr>
     pattern = seqs ([Lit ''create'', spaces, Opt (Seq (Lit ''a'') spaces),
                      Opt (Seq (Lit ''new'') spaces), Lit ''file'', spaces,
                      Opt (Alt (Seq (Lit ''called'') spaces) (Seq (Lit ''named'') spaces))]
                     @ quotedArg),
     toolName = ''create_file_or_folder'',
     extractParams = extractGroup1 ''uri'' \<rparr>"

definition editPattern :: ToolCallPattern where
  "editPattern = \<lparr>
     pattern = seqs ([Lit ''edit'', spaces, Opt (Seq (Lit ''the'') spaces), Lit ''file'', spaces]
                     @ quotedArg),
     toolName = ''read_file'',
     extractParams = extractGroup1 ''uri'' \<rparr>"

definition readPattern :: ToolCallPattern where
  "readPattern = \<lparr>
     pattern = seqs ([Lit ''read'', spaces, Opt (Seq (Lit ''the'') spaces), Lit ''file'', spaces]
                     @ quotedArg),
     toolName = ''read_file'',
     extractParams = extractGroup1 ''uri'' \<rparr>"

definition toolCallPatterns :: "ToolCallPattern list" where
  "toolCallPatterns = [runPattern, createPattern, editPattern, readPattern]"

subsection \<open>\<^verbatim>\<open>enforceToolCall\<close>\<close>

record RawToolCallObj =
  name :: string
  rawParams :: "(string \<times> string) list"
  doneParams :: "string list"
  id_field :: string
  isDone :: bool

text \<open>
  \<^verbatim>\<open>generateUuid\<close> belongs to the editor platform. It is a parameter here: \<open>uuids k\<close> is the
  identifier its k-th call returns, and the number of calls made so far is threaded
  through, so that a call of the generator is visible in the result.

  The loop over the patterns: a pattern that does not match, or whose
  \<^verbatim>\<open>extractParams\<close> throws (the \<^verbatim>\<open>catch\<close> only logs), passes on to the next one.
\<close>

fun try_patterns ::
  "ToolCallPattern list \<Rightarrow> (nat \<Rightarrow> string) \<Rightarrow> nat \<Rightarrow> string \<Rightarrow> RawToolCallObj option \<times> nat" where
  "try_patterns [] uuids n fullText = (None, n)"
| "try_patterns (p # ps) uuids n fullText =
     (case regex_match (pattern p) fullText of
        None \<Rightarrow> try_patterns ps uuids n fullText
      | Some match \<Rightarrow>
          (case extractParams p match fullText of
             Inl e \<Rightarrow> try_patterns ps uuids n fullText
           | Inr params \<Rightarrow>
               (Some \<lparr> name = toolName p, rawParams = params, doneParams = map fst params,
                       id_field = uuids n, isDone = False \<rparr>, Suc n)))"

definition enforceToolCall ::
  "(nat \<Rightarrow> string) \<Rightarrow> nat \<Rightarrow> string \<Rightarrow> string option \<Rightarrow> RawToolCallObj option \<times> nat" where
  "enforceToolCall uuids n fullText chatMode =
     (if chatMode \<noteq> Some ''agent'' then (None, n)
      else if length fullText < 20 then (None, n)
      else try_patterns toolCallPatterns uuids n fullText)"

text \<open>A syntactic check that a pattern cannot succeed without filling group 1: the
  group lies on every path through the pattern.\<close>

fun always_captures :: "regex \<Rightarrow> bool" where
  "always_captures (Lit l) = False"
| "always_captures (CharClass p) = False"
| "always_captures (Plus p) = False"
| "always_captures (Opt r) = False"
| "always_captures (Alt r1 r2) = (always_captures r1 \<and> always_captures r2)"
| "always_captures (Seq r1 r2) = (always_captures r1 \<or> always_captures r2)"
| "always_captures (Group r) = True"

text \<open>An identifier generator to run the enforcer with: its k-th identifier is
  \<^verbatim>\<open>uuid-\<close> followed by k times \<^verbatim>\<open>x\<close>.\<close>

definition sampleUuids :: "nat \<Rightarrow> string" where
  "sampleUuids k = ''uuid-'' @ replicate k (CHR ''x'')"

section \<open>Sidebar chat\<close>

subsection \<open>Submitting a message\<close>

text \<open>
  Modelled from the spec: the type \<^verbatim>\<open>IsRunningType\<close>, declared by the chat thread service
  (not among the sources). The spec lists its values, and the sidebar compares
  \<^verbatim>\<open>isRunning\<close> with \<^verbatim>\<open>'LLM'\<close>, \<^verbatim>\<open>'tool'\<close>, \<^verbatim>\<open>'idle'\<close> and \<^verbatim>\<open>'awaiting_user'\<close>.
  \<open>NotRunning\<close> stands for the falsy values (\<^verbatim>\<open>undefined\<close>, also when the thread has no
  stream state).
\<close>

datatype IsRunningType = NotRunning | LLM | Tool | Idle | AwaitingUser

fun isTruthy :: "IsRunningType \<Rightarrow> bool" where
  "isTruthy NotRunning = False"
| "isTruthy r = True"

text \<open>The argument of one call of
  \<^verbatim>\<open>chatThreadsService.addUserMessageAndStreamResponse\<close>.\<close>

record AddUserMessageArgs =
  userMessage :: string
  threadId :: string
  images :: "string list option"

text \<open>
  What \<^verbatim>\<open>onSubmit\<close> of \<^verbatim>\<open>SidebarChat\<close> reads and writes: the values its closure
  holds (\<open>isDisabled\<close>, \<open>isRunning\<close> of the current thread's stream state), the text area
  (\<open>None\<close> while the ref is not mounted), the attached images, the staged selections,
  and the calls it has made to the service, in order.
\<close>

record SidebarChat =
  isDisabled :: bool
  isRunning :: IsRunningType
  currentThreadId :: string
  textAreaValue :: "string option"
  attachedImages :: "string list"
  stagingSelections :: "string list"
  serviceCalls :: "AddUserMessageArgs list"

text \<open>\<^verbatim>\<open>_forceSubmit || textAreaRef.current?.value || ''\<close>\<close>

definition userMessageOf :: "string option \<Rightarrow> string option \<Rightarrow> string" where
  "userMessageOf forceSubmit textArea =
     (if forceSubmit \<noteq> None \<and> forceSubmit \<noteq> Some [] then the forceSubmit
      else if textArea \<noteq> None \<and> textArea \<noteq> Some [] then the textArea
      else [])"

definition onSubmit :: "SidebarChat \<Rightarrow> string option \<Rightarrow> SidebarChat" where
  "onSubmit st forceSubmit =
     (if isDisabled st \<and> (forceSubmit = None \<or> forceSubmit = Some []) then st
      else if isTruthy (isRunning st) then st
      else st \<lparr> serviceCalls := serviceCalls st @
                   [\<lparr> userMessage = userMessageOf forceSubmit (textAreaValue st),
                      threadId = currentThreadId st,
                      images = (if length (attachedImages st) > 0
                                then Some (attachedImages st) else None) \<rparr>],
                stagingSelections := [],
                attachedImages := [],
                textAreaValue := map_option (\<lambda>v. []) (textAreaValue st) \<rparr>)"

subsection \<open>The thread's stream state\<close>

text \<open>
  Modelled from the spec: the stream state that the chat thread service keeps for a
  thread, with \<^verbatim>\<open>addUserMessageAndStreamResponse\<close>, \<^verbatim>\<open>abortRunning\<close> and the course of
  a turn; the service is not among the sources. By the spec (4.3 and 5),
  \<^verbatim>\<open>addUserMessageAndStreamResponse\<close> appends the user message and moves the thread to
  LLM streaming, and fails, reported to the caller, when a turn is already running on the
  thread; a running turn passes through its phases (streaming, running a tool, awaiting
  the user) and leaves the thread idle when it completes; \<^verbatim>\<open>abortRunning\<close> cancels
  whatever is in flight and does nothing on an idle thread. \<open>runningTurns\<close> counts the
  turns that were started and have neither completed nor been aborted.
\<close>

record ThreadStream =
  streamIsRunning :: IsRunningType
  userMessages :: "string list"
  runningTurns :: nat

datatype service_error = TurnAlreadyRunning

definition addUserMessageAndStreamResponse ::
  "ThreadStream \<Rightarrow> string \<Rightarrow> service_error + ThreadStream" where
  "addUserMessageAndStreamResponse t msg =
     (if isTruthy (streamIsRunning t) then Inl TurnAlreadyRunning
      else Inr (t \<lparr> streamIsRunning := LLM, userMessages := userMessages t @ [msg],
                    runningTurns := Suc (runningTurns t) \<rparr>))"

definition turnPhase :: "ThreadStream \<Rightarrow> IsRunningType \<Rightarrow> ThreadStream" where
  "turnPhase t phase =
     (if isTruthy (streamIsRunning t) \<and> isTruthy phase then t \<lparr> streamIsRunning := phase \<rparr>
      else t)"

definition turnComplete :: "ThreadStream \<Rightarrow> ThreadStream" where
  "turnComplete t =
     (if isTruthy (streamIsRunning t)
      then t \<lparr> streamIsRunning := NotRunning, runningTurns := runningTurns t - 1 \<rparr>
      else t)"

definition abortRunning :: "ThreadStream \<Rightarrow> ThreadStream" where
  "abortRunning t =
     (if isTruthy (streamIsRunning t)
      then t \<lparr> streamIsRunning := NotRunning, runningTurns := 0 \<rparr>
      else t)"

text \<open>
  The sidebar next to the service. \<^verbatim>\<open>onSubmit\<close> is a \<^verbatim>\<open>useCallback\<close> closure: the
  \<open>isRunning\<close> it tests is the value that \<^verbatim>\<open>useChatThreadsStreamState\<close> gave at the last
  render, and a render is what brings it up to date. A submit runs \<^verbatim>\<open>onSubmit\<close>; when
  that calls the service, the call goes to \<^verbatim>\<open>addUserMessageAndStreamResponse\<close>, and a
  failure is caught and logged (\<open>refusedCalls\<close> counts them). \<^verbatim>\<open>onAbort\<close> calls
  \<^verbatim>\<open>abortRunning\<close>.
\<close>

datatype ChatEvent =
    Render
  | Submit "string option"
  | TurnPhase IsRunningType
  | TurnComplete
  | Abort

record ChatSystem =
  sidebar :: SidebarChat
  stream :: ThreadStream
  refusedCalls :: nat

fun step :: "ChatSystem \<Rightarrow> ChatEvent \<Rightarrow> ChatSystem" where
  "step s Render = s \<lparr> sidebar := (sidebar s) \<lparr> isRunning := streamIsRunning (stream s) \<rparr> \<rparr>"
| "step s (Submit forceSubmit) =
     (if serviceCalls (onSubmit (sidebar s) forceSubmit) = serviceCalls (sidebar s)
      then s \<lparr> sidebar := onSubmit (sidebar s) forceSubmit \<rparr>
      else (case addUserMessageAndStreamResponse (stream s)
                   (userMessage (last (serviceCalls (onSubmit (sidebar s) forceSubmit)))) of
              Inl e \<Rightarrow> s \<lparr> sidebar := onSubmit (sidebar s) forceSubmit,
                           refusedCalls := Suc (refusedCalls s) \<rparr>
            | Inr t \<Rightarrow> s \<lparr> sidebar := onSubmit (sidebar s) forceSubmit, stream := t \<rparr>))"
| "step s (TurnPhase phase) = s \<lparr> stream := turnPhase (stream s) phase \<rparr>"
| "step s TurnComplete = s \<lparr> stream := turnComplete (stream s) \<rparr>"
| "step s Abort = s \<lparr> stream := abortRunning (stream s) \<rparr>"

fun run :: "ChatSystem \<Rightarrow> ChatEvent list \<Rightarrow> ChatSystem" where
  "run s [] = s"
| "run s (e # es) = run (step s e) es"

text \<open>The stream state and the count of running turns go together: the thread is
  running exactly when one turn is under way, and never more than one is.\<close>

definition turnInvariant :: "ThreadStream \<Rightarrow> bool" where
  "turnInvariant t =
     (runningTurns t \<le> 1 \<and> (isTruthy (streamIsRunning t) \<longleftrightarrow> runningTurns t = 1))"

subsection \<open>Messages and checkpoints\<close>

datatype ToolMessageType =
  tool_request | running_now | success | tool_error | rejected | invalid_params

datatype ChatMessage =
    User string
  | Assistant string
  | Tool string ToolMessageType
  | InterruptedStreamingTool string
  | Checkpoint




record Thread =
  messages :: "ChatMessage list"
  currCheckpointIdx :: "int option"




subsection \<open>Approving and rejecting a tool request\<close>

text \<open>The latest tool message of a thread: the last message whose role is
  \<^verbatim>\<open>tool\<close>, with its position.\<close>

fun latestTool :: "ChatMessage list \<Rightarrow> (nat \<times> string \<times> ToolMessageType) option" where
  "latestTool [] = None"
| "latestTool (m # ms) =
     (case latestTool ms of
        Some (i, nm, ty) \<Rightarrow> Some (Suc i, nm, ty)
      | None \<Rightarrow> (case m of Tool nm ty \<Rightarrow> Some (0, nm, ty) | _ \<Rightarrow> None))"

definition latestToolType :: "ChatMessage list \<Rightarrow> ToolMessageType option" where
  "latestToolType ms = map_option (\<lambda>(i, nm, ty). ty) (latestTool ms)"

text \<open>
  Modelled from the spec: \<^verbatim>\<open>approveLatestToolRequest\<close> and
  \<^verbatim>\<open>rejectLatestToolRequest\<close> of the chat thread service, which is not among the sources
  (the sidebar's buttons call them). By the spec they are valid only when the thread's
  latest tool message is in \<^verbatim>\<open>tool_request\<close> state, which they move to
  \<^verbatim>\<open>running_now\<close> and to \<^verbatim>\<open>rejected\<close>; on a thread that is not awaiting approval
  they do nothing and raise no error. The result is \<open>Inl\<close> for an exception, \<open>Inr\<close> for
  the threads afterwards; the threads are a map from thread identifiers.
\<close>

definition resolveLatestToolRequest ::
  "ToolMessageType \<Rightarrow> (string \<rightharpoonup> Thread) \<Rightarrow> string \<Rightarrow> js_exception + (string \<rightharpoonup> Thread)" where
  "resolveLatestToolRequest newType allThreads tid =
     (case allThreads tid of
        None \<Rightarrow> Inr allThreads
      | Some th \<Rightarrow>
          (case latestTool (messages th) of
             Some (i, nm, tool_request) \<Rightarrow>
               Inr (allThreads (tid \<mapsto> th \<lparr> messages := (messages th) [i := Tool nm newType] \<rparr>))
           | _ \<Rightarrow> Inr allThreads))"

definition approveLatestToolRequest ::
  "(string \<rightharpoonup> Thread) \<Rightarrow> string \<Rightarrow> js_exception + (string \<rightharpoonup> Thread)" where
  "approveLatestToolRequest = resolveLatestToolRequest running_now"

definition rejectLatestToolRequest ::
  "(string \<rightharpoonup> Thread) \<Rightarrow> string \<Rightarrow> js_exception + (string \<rightharpoonup> Thread)" where
  "rejectLatestToolRequest = resolveLatestToolRequest rejected"

subsection \<open>Sample states\<close>

text \<open>An idle chat with a message typed in, a thread with two checkpoints, an emptiness
  test for assistant content without think tags, a thread whose latest tool message
  awaits approval, and one whose tool has finished.\<close>

definition idleChat :: ChatSystem where
  "idleChat = \<lparr>
     sidebar = \<lparr> isDisabled = False, isRunning = NotRunning, currentThreadId = ''thread-1'',
       textAreaValue = Some ''first'', attachedImages = [], stagingSelections = [''app.ts''],
       serviceCalls = [] \<rparr>,
     stream = \<lparr> streamIsRunning = NotRunning, userMessages = [], runningTurns = 0 \<rparr>,
     refusedCalls = 0 \<rparr>"



definition awaitingThread :: Thread where
  "awaitingThread = \<lparr> messages = [User ''run the tests'', Tool ''run_command'' tool_request],
                       currCheckpointIdx = None \<rparr>"

definition settledThread :: Thread where
  "settledThread = \<lparr> messages = [User ''run the tests'', Tool ''run_command'' success,
                                   Assistant ''all green''],
                      currCheckpointIdx = None \<rparr>"

section \<open>Properties of the error classifier\<close>

text \<open>
  C6 (amended). \<^verbatim>\<open>isRetryableError(error, retryableStatusCodes)\<close> is true exactly when
  one of these holds: (1) \<^verbatim>\<open>error.status\<close> is a number other than 0 contained in
  \<^verbatim>\<open>retryableStatusCodes\<close>, (2) \<^verbatim>\<open>error.response.status\<close> is a number other than 0
  contained in \<^verbatim>\<open>retryableStatusCodes\<close>, (3) \<^verbatim>\<open>error.message\<close> is a string with the
  substring "429"; it is false for every other error. The status checks sit behind a
  truthiness guard, so a status of 0 is never retryable, listed or not.
\<close>

theorem isRetryableError_iff:
  "isRetryableError e codes \<longleftrightarrow>
     (\<exists>n. getProp e ''status'' = JNum n \<and> n \<noteq> 0 \<and> n \<in> set codes)
   \<or> (\<exists>n. getProp (getProp e ''response'') ''status'' = JNum n \<and> n \<noteq> 0 \<and> n \<in> set codes)
   \<or> (\<exists>s. getProp e ''message'' = JStr s \<and> sublist ''429'' s)"
proof -
  have a: "(truthy v \<and> includes_code codes v) = (\<exists>n. v = JNum n \<and> n \<noteq> 0 \<and> n \<in> set codes)"
    for v by (cases v) auto
  have b: "(truthy v \<and> string_includes v ''429'') = (\<exists>s. v = JStr s \<and> sublist ''429'' s)"
    for v by (cases v) auto
  show ?thesis unfolding isRetryableError_def a b by auto
qed

text \<open>The three checks at work: a listed status, a listed status under
  \<^verbatim>\<open>response\<close>, and a message that mentions 429.\<close>

theorem isRetryableError_iff_witness:
  "isRetryableError (JObj [(''status'', JNum 503)]) [429, 503, 504]
   \<and> isRetryableError (JObj [(''response'', JObj [(''status'', JNum 504)])]) [429, 503, 504]
   \<and> isRetryableError (JObj [(''message'', JStr ''HTTP 429 Too Many Requests'')]) [429, 503, 504]
   \<and> \<not> isRetryableError (JObj [(''status'', JNum 400), (''message'', JStr ''Bad Request'')])
         [429, 503, 504]"
proof -
  have "sublist ''429'' ''HTTP 429 Too Many Requests''" by code_simp
  moreover have "\<not> sublist ''429'' ''Bad Request''" by code_simp
  ultimately show ?thesis
    using isRetryableError_iff [of "JObj [(''status'', JNum 503)]" "[429, 503, 504]"]
      isRetryableError_iff [of "JObj [(''response'', JObj [(''status'', JNum 504)])]" "[429, 503, 504]"]
      isRetryableError_iff [of "JObj [(''message'', JStr ''HTTP 429 Too Many Requests'')]" "[429, 503, 504]"]
      isRetryableError_iff [of "JObj [(''status'', JNum 400), (''message'', JStr ''Bad Request'')]" "[429, 503, 504]"]
    by simp
qed

text \<open>Without the guard every numeric status found in the list would count. An error
  with status 0 and a list that holds 0: the status is numeric and listed, and the
  classifier says no.\<close>

theorem isRetryableError_status_zero_counterexample:
  "getProp (httpError 0) ''status'' = JNum 0 \<and> (0::int) \<in> set [0]
   \<and> \<not> isRetryableError (httpError 0) [0]"
  by (simp add: httpError_def isRetryableError_def)

section \<open>Properties of the retry loop\<close>

text \<open>As long as the attempts fail with retryable errors and retries are left, the loop
  sleeps and goes on: after \<open>k\<close> such failures it stands at attempt \<open>k\<close>, having slept
  the first \<open>k\<close> backoff delays.\<close>

lemma retry_loop_retries:
  assumes "\<forall>i<k. \<exists>e. fn (n + i) = Inl e \<and> isRetryableError e (r_retryableStatusCodes c)"
    and "attempt + int k \<le> r_maxRetries c"
  shows "\<exists>d' le'. retry_loop c fn attempt d le n sl
           = retry_loop c fn (attempt + int k) d' le' (n + k) (sl @ backoff_delays c d k)"
  using assms
proof (induction k arbitrary: attempt d le n sl)
  case 0
  then show ?case by auto
next
  case (Suc k)
  from Suc.prems(1) obtain e where e: "fn n = Inl e"
    "isRetryableError e (r_retryableStatusCodes c)" by force
  have lt: "attempt < r_maxRetries c" using Suc.prems(2) by simp
  have step: "retry_loop c fn attempt d le n sl
      = retry_loop c fn (attempt + 1) (next_delay c d) e (Suc n) (sl @ [d])"
    using e lt by (subst retry_loop.simps) (simp add: next_delay_def)
  have "\<forall>i<k. \<exists>e. fn (Suc n + i) = Inl e \<and> isRetryableError e (r_retryableStatusCodes c)"
    using Suc.prems(1) by (metis Suc_less_eq add_Suc_shift)
  moreover have "attempt + 1 + int k \<le> r_maxRetries c" using Suc.prems(2) by simp
  ultimately obtain d' le' where
    "retry_loop c fn (attempt + 1) (next_delay c d) e (Suc n) (sl @ [d])
       = retry_loop c fn (attempt + 1 + int k) d' le' (Suc n + k)
           ((sl @ [d]) @ backoff_delays c (next_delay c d) k)"
    using Suc.IH by blast
  moreover have "attempt + 1 + int k = attempt + int (Suc k)" "Suc n + k = n + Suc k"
    "(sl @ [d]) @ backoff_delays c (next_delay c d) k = sl @ backoff_delays c d (Suc k)"
    by simp_all
  ultimately show ?case using step by metis
qed

lemma backoff_delays_length: "length (backoff_delays c d k) = k"
  by (induction k arbitrary: d) auto

lemma backoff_delays_tl_capped:
  "x \<in> set (tl (backoff_delays c d k)) \<Longrightarrow> x \<le> r_maxDelayMs c"
proof (induction k arbitrary: d)
  case 0 then show ?case by simp
next
  case (Suc k)
  show ?case
  proof (cases k)
    case 0 with Suc.prems show ?thesis by simp
  next
    case (Suc j)
    with Suc.prems have "x = next_delay c d \<or> x \<in> set (tl (backoff_delays c (next_delay c d) k))"
      by auto
    then show ?thesis using Suc.IH by (auto simp: next_delay_def)
  qed
qed

lemma backoff_delays_capped:
  "d \<le> r_maxDelayMs c \<Longrightarrow> x \<in> set (backoff_delays c d k) \<Longrightarrow> x \<le> r_maxDelayMs c"
proof (induction k arbitrary: d)
  case 0 then show ?case by simp
next
  case (Suc k)
  have "next_delay c d \<le> r_maxDelayMs c" by (simp add: next_delay_def)
  with Suc show ?case by auto
qed

text \<open>On safe integers with a safe product the product of the code is the product of
  the integers.\<close>

lemma jsMultiply_safe: "isSafeInteger (a * b) \<Longrightarrow> jsMultiply a b = a * b"
  by (simp add: jsMultiply_def roundToDouble_def)

text \<open>Beyond the safe integers it is not: three times the largest safe integer ends
  in 973, and the nearest double, which the code computes, in 972.\<close>

lemma jsMultiply_rounds:
  "jsMultiply 9007199254740991 3 = 27021597764222972
   \<and> (9007199254740991::int) * 3 = 27021597764222973"
  by code_simp

lemma mergeConfig_noConfig: "mergeConfig noConfig = defaultRetryConfig"
  by (simp add: mergeConfig_def noConfig_def defaultRetryConfig_def)

lemma retry_loop_success:
  "attempt \<le> r_maxRetries c \<Longrightarrow> fn n = Inr v \<Longrightarrow>
     retry_loop c fn attempt d le n sl = \<lparr> result = Inr v, calls = Suc n, sleeps = sl \<rparr>"
  by (subst retry_loop.simps) simp

lemma retry_loop_last_attempt:
  "attempt = r_maxRetries c \<Longrightarrow> fn n = Inl e \<Longrightarrow>
     retry_loop c fn attempt d le n sl = \<lparr> result = Inl e, calls = Suc n, sleeps = sl \<rparr>"
  by (subst retry_loop.simps) simp

lemma retry_loop_not_retryable:
  "attempt \<le> r_maxRetries c \<Longrightarrow> fn n = Inl e \<Longrightarrow>
   \<not> isRetryableError e (r_retryableStatusCodes c) \<Longrightarrow>
     retry_loop c fn attempt d le n sl = \<lparr> result = Inl e, calls = Suc n, sleeps = sl \<rparr>"
  by (subst retry_loop.simps) simp

lemma retry_from_start:
  assumes "\<forall>i<k. \<exists>e. fn i = Inl e \<and> isRetryableError e (r_retryableStatusCodes (mergeConfig config))"
    and "int k \<le> r_maxRetries (mergeConfig config)"
  shows "\<exists>d' le'. retryWithExponentialBackoff fn config
           = retry_loop (mergeConfig config) fn (int k) d' le' k
               (backoff_delays (mergeConfig config) (r_initialDelayMs (mergeConfig config)) k)"
  using retry_loop_retries [of k fn 0 "mergeConfig config" 0 "r_initialDelayMs (mergeConfig config)"
      JUndefined "[]"] assms
  by (simp add: retryWithExponentialBackoff_def)

text \<open>
  C3 (amended). When the operation fails with retryable errors on its first two calls
  and succeeds on the third, and at least two retries are allowed
  (\<^verbatim>\<open>maxRetries >= 2\<close>), \<^verbatim>\<open>retryWithExponentialBackoff\<close> returns the success value
  after exactly three invocations and two sleeps: the first of \<^verbatim>\<open>initialDelayMs\<close>, the
  second of \<^verbatim>\<open>min(initialDelayMs * backoffMultiplier, maxDelayMs)\<close>. The values are
  stated for delays, multiplier and product that are safe integers, where the product of
  the code is the product of the integers.
\<close>

theorem retry_twice_then_success:
  assumes "fn 0 = Inl e0" and "isRetryableError e0 (r_retryableStatusCodes (mergeConfig config))"
    and "fn 1 = Inl e1" and "isRetryableError e1 (r_retryableStatusCodes (mergeConfig config))"
    and "fn 2 = Inr v"
    and "2 \<le> r_maxRetries (mergeConfig config)"
    and "isSafeInteger (r_initialDelayMs (mergeConfig config))"
    and "isSafeInteger (r_backoffMultiplier (mergeConfig config))"
    and "isSafeInteger (r_maxDelayMs (mergeConfig config))"
    and "isSafeInteger (r_initialDelayMs (mergeConfig config)
                         * r_backoffMultiplier (mergeConfig config))"
  shows "retryWithExponentialBackoff fn config =
           \<lparr> result = Inr v, calls = 3,
             sleeps = [r_initialDelayMs (mergeConfig config),
                       min (r_initialDelayMs (mergeConfig config)
                              * r_backoffMultiplier (mergeConfig config))
                           (r_maxDelayMs (mergeConfig config))] \<rparr>"
proof -
  let ?c = "mergeConfig config"
  have "\<exists>e. fn i = Inl e \<and> isRetryableError e (r_retryableStatusCodes ?c)" if "i < 2" for i
  proof -
    from that have "i = 0 \<or> i = 1" by arith
    then show ?thesis using assms(1-4) by auto
  qed
  moreover have "int 2 \<le> r_maxRetries ?c" using assms(6) by simp
  ultimately obtain d' le' where
    "retryWithExponentialBackoff fn config
       = retry_loop ?c fn (int 2) d' le' 2 (backoff_delays ?c (r_initialDelayMs ?c) 2)"
    using retry_from_start [of 2 fn config] by blast
  moreover have "backoff_delays ?c (r_initialDelayMs ?c) 2 =
      [r_initialDelayMs ?c, min (r_initialDelayMs ?c * r_backoffMultiplier ?c) (r_maxDelayMs ?c)]"
    using jsMultiply_safe [OF assms(10)] by (simp add: numeral_2_eq_2 next_delay_def)
  ultimately show ?thesis
    using retry_loop_success [of "int 2" ?c fn 2 v] assms(5,6) by simp
qed

text \<open>Under the defaults the two sleeps are 1000 and 2000 ms, that is
  \<^verbatim>\<open>initialDelayMs + initialDelayMs * backoffMultiplier\<close> in total.\<close>

theorem retry_twice_then_success_witness:
  "retryWithExponentialBackoff (failsThenSucceeds 2 (httpError 429) ''done'') noConfig =
     \<lparr> result = Inr ''done'', calls = 3, sleeps = [1000, 2000] \<rparr>
   \<and> sum_list [1000, 2000 :: int] = 1000 + 1000 * 2"
proof -
  let ?fn = "failsThenSucceeds 2 (httpError 429) ''done''"
  have r: "isRetryableError (httpError 429) (r_retryableStatusCodes (mergeConfig noConfig))"
    by (simp add: mergeConfig_noConfig defaultRetryConfig_def isRetryableError_def httpError_def)
  have f0: "?fn 0 = Inl (httpError 429)" and f1: "?fn 1 = Inl (httpError 429)"
    and f2: "?fn 2 = Inr ''done''"
    by (simp_all add: failsThenSucceeds_def)
  have m: "2 \<le> r_maxRetries (mergeConfig noConfig)"
    by (simp add: mergeConfig_noConfig defaultRetryConfig_def)
  have s1: "isSafeInteger (r_initialDelayMs (mergeConfig noConfig))"
    and s2: "isSafeInteger (r_backoffMultiplier (mergeConfig noConfig))"
    and s3: "isSafeInteger (r_maxDelayMs (mergeConfig noConfig))"
    and s4: "isSafeInteger (r_initialDelayMs (mergeConfig noConfig)
                         * r_backoffMultiplier (mergeConfig noConfig))"
    by (simp_all add: mergeConfig_noConfig defaultRetryConfig_def isSafeInteger_def)
  from retry_twice_then_success [OF f0 r f1 r f2 m s1 s2 s3 s4]
  show ?thesis by (simp add: mergeConfig_noConfig defaultRetryConfig_def)
qed

text \<open>The second sleep is not \<^verbatim>\<open>initialDelayMs * backoffMultiplier\<close> under every
  configuration, nor is the third call always reached. With
  \<^verbatim>\<open>{ initialDelayMs: 8000 }\<close> the product is 16000 and the cap cuts the second sleep to
  10000; with \<^verbatim>\<open>{ maxRetries: 1 }\<close> the second failure is the last attempt and is
  thrown.\<close>

theorem retry_twice_then_success_counterexample:
  "sleeps (retryWithExponentialBackoff (failsThenSucceeds 2 (httpError 429) ''done'')
       (noConfig \<lparr> initialDelayMs := Some 8000 \<rparr>)) = [8000, 10000]
   \<and> r_initialDelayMs (mergeConfig (noConfig \<lparr> initialDelayMs := Some 8000 \<rparr>))
       * r_backoffMultiplier (mergeConfig (noConfig \<lparr> initialDelayMs := Some 8000 \<rparr>)) = 16000
   \<and> sleeps (retryWithExponentialBackoff (failsThenSucceeds 2 (httpError 429) ''done'')
       (noConfig \<lparr> initialDelayMs := Some 8000 \<rparr>))
       \<noteq> [r_initialDelayMs (mergeConfig (noConfig \<lparr> initialDelayMs := Some 8000 \<rparr>)),
          r_initialDelayMs (mergeConfig (noConfig \<lparr> initialDelayMs := Some 8000 \<rparr>))
            * r_backoffMultiplier (mergeConfig (noConfig \<lparr> initialDelayMs := Some 8000 \<rparr>))]
   \<and> result (retryWithExponentialBackoff (failsThenSucceeds 2 (httpError 429) ''done'')
       (noConfig \<lparr> maxRetries := Some 1 \<rparr>)) = Inl (httpError 429)"
  by code_simp

text \<open>
  C4. When an attempt fails with an error that is not retryable (the earlier attempts, if
  any, having failed with retryable ones), \<^verbatim>\<open>retryWithExponentialBackoff\<close> throws that
  very error at once: the operation is not invoked again and no sleep follows the
  failure, so the sleeps are those of the \<open>k\<close> earlier retries and none when the first
  attempt fails.
\<close>

theorem retry_non_retryable_propagates:
  assumes "\<forall>i<k. \<exists>e'. fn i = Inl e' \<and> isRetryableError e' (r_retryableStatusCodes (mergeConfig config))"
    and "int k \<le> r_maxRetries (mergeConfig config)"
    and "fn k = Inl e"
    and "\<not> isRetryableError e (r_retryableStatusCodes (mergeConfig config))"
  shows "retryWithExponentialBackoff fn config =
           \<lparr> result = Inl e, calls = Suc k,
             sleeps = backoff_delays (mergeConfig config) (r_initialDelayMs (mergeConfig config)) k \<rparr>
         \<and> length (sleeps (retryWithExponentialBackoff fn config)) = k"
proof -
  let ?c = "mergeConfig config"
  obtain d' le' where
    "retryWithExponentialBackoff fn config
       = retry_loop ?c fn (int k) d' le' k (backoff_delays ?c (r_initialDelayMs ?c) k)"
    using retry_from_start [OF assms(1,2)] by blast
  then show ?thesis
    using retry_loop_not_retryable [of "int k" ?c fn k e] assms(2,3,4)
    by (simp add: backoff_delays_length)
qed

text \<open>An operation that answers 400: one invocation, no sleep, the error thrown.\<close>

theorem retry_non_retryable_propagates_witness:
  "retryWithExponentialBackoff (failsThenSucceeds 5 (httpError 400) ''done'') noConfig =
     \<lparr> result = Inl (httpError 400), calls = 1, sleeps = [] \<rparr>"
proof -
  have "\<not> isRetryableError (httpError 400) (r_retryableStatusCodes (mergeConfig noConfig))"
    by (simp add: mergeConfig_noConfig defaultRetryConfig_def isRetryableError_def httpError_def)
  moreover have "failsThenSucceeds 5 (httpError 400) ''done'' 0 = Inl (httpError 400)"
    by (simp add: failsThenSucceeds_def)
  moreover have "int 0 \<le> r_maxRetries (mergeConfig noConfig)"
    by (simp add: mergeConfig_noConfig defaultRetryConfig_def)
  ultimately show ?thesis
    using retry_non_retryable_propagates
      [of 0 "failsThenSucceeds 5 (httpError 400) ''done''" noConfig "httpError 400"]
    by simp
qed

text \<open>
  C5 (amended). When every attempt fails with a retryable error and \<^verbatim>\<open>maxRetries\<close> is
  not negative, the operation is invoked exactly \<^verbatim>\<open>maxRetries + 1\<close> times (4 times
  under the defaults, with sleeps of 1000, 2000 and 4000 ms) and the error of the last
  attempt is what \<^verbatim>\<open>retryWithExponentialBackoff\<close> throws. There is one sleep per retry.
  The first sleep is \<^verbatim>\<open>initialDelayMs\<close> as configured, whatever \<^verbatim>\<open>maxDelayMs\<close> is;
  every later delay is at most \<^verbatim>\<open>maxDelayMs\<close>, and so are all of them when
  \<^verbatim>\<open>initialDelayMs\<close> is.
\<close>

theorem retry_exhausted:
  assumes "0 \<le> r_maxRetries (mergeConfig config)"
    and "\<forall>i \<le> nat (r_maxRetries (mergeConfig config)).
           \<exists>e. fn i = Inl e \<and> isRetryableError e (r_retryableStatusCodes (mergeConfig config))"
  shows "calls (retryWithExponentialBackoff fn config) = nat (r_maxRetries (mergeConfig config) + 1)
       \<and> result (retryWithExponentialBackoff fn config)
           = fn (nat (r_maxRetries (mergeConfig config)))
       \<and> length (sleeps (retryWithExponentialBackoff fn config))
           = nat (r_maxRetries (mergeConfig config))
       \<and> (0 < r_maxRetries (mergeConfig config) \<longrightarrow>
            hd (sleeps (retryWithExponentialBackoff fn config))
              = r_initialDelayMs (mergeConfig config))
       \<and> (\<forall>d \<in> set (tl (sleeps (retryWithExponentialBackoff fn config))).
             d \<le> r_maxDelayMs (mergeConfig config))
       \<and> (r_initialDelayMs (mergeConfig config) \<le> r_maxDelayMs (mergeConfig config) \<longrightarrow>
            (\<forall>d \<in> set (sleeps (retryWithExponentialBackoff fn config)).
               d \<le> r_maxDelayMs (mergeConfig config)))
       \<and> (config = noConfig \<longrightarrow>
            calls (retryWithExponentialBackoff fn config) = 4
            \<and> sleeps (retryWithExponentialBackoff fn config) = [1000, 2000, 4000])"
proof -
  let ?c = "mergeConfig config"
  let ?k = "nat (r_maxRetries ?c)"
  have k: "int ?k = r_maxRetries ?c" using assms(1) by simp
  obtain e where e: "fn ?k = Inl e" using assms(2) by blast
  have "\<forall>i<?k. \<exists>e. fn i = Inl e \<and> isRetryableError e (r_retryableStatusCodes ?c)"
    using assms(2) by (simp add: less_imp_le)
  moreover have "int ?k \<le> r_maxRetries ?c" using k by simp
  ultimately obtain d' le' where
    "retryWithExponentialBackoff fn config
       = retry_loop ?c fn (int ?k) d' le' ?k (backoff_delays ?c (r_initialDelayMs ?c) ?k)"
    using retry_from_start [of ?k fn config] by blast
  then have run: "retryWithExponentialBackoff fn config
       = \<lparr> result = Inl e, calls = Suc ?k, sleeps = backoff_delays ?c (r_initialDelayMs ?c) ?k \<rparr>"
    using retry_loop_last_attempt [of "int ?k" ?c fn ?k e] k e by simp
  have c1: "calls (retryWithExponentialBackoff fn config) = nat (r_maxRetries ?c + 1)"
    using run assms(1) by (simp add: nat_add_distrib)
  have c2: "result (retryWithExponentialBackoff fn config) = fn ?k"
    using run e by simp
  have c3: "sleeps (retryWithExponentialBackoff fn config) = backoff_delays ?c (r_initialDelayMs ?c) ?k"
    using run by simp
  have c3': "length (sleeps (retryWithExponentialBackoff fn config)) = ?k"
    unfolding c3 by (rule backoff_delays_length)
  have c3'': "0 < r_maxRetries ?c \<longrightarrow>
      hd (sleeps (retryWithExponentialBackoff fn config)) = r_initialDelayMs ?c"
  proof
    assume "0 < r_maxRetries ?c"
    then obtain j where "?k = Suc j" by (cases ?k) simp_all
    then show "hd (sleeps (retryWithExponentialBackoff fn config)) = r_initialDelayMs ?c"
      unfolding c3 by simp
  qed
  have c4: "\<forall>d \<in> set (tl (sleeps (retryWithExponentialBackoff fn config))). d \<le> r_maxDelayMs ?c"
    unfolding c3 using backoff_delays_tl_capped by blast
  have c5: "r_initialDelayMs ?c \<le> r_maxDelayMs ?c \<longrightarrow>
     (\<forall>d \<in> set (sleeps (retryWithExponentialBackoff fn config)). d \<le> r_maxDelayMs ?c)"
    unfolding c3 using backoff_delays_capped by blast
  have c6: "config = noConfig \<longrightarrow>
            calls (retryWithExponentialBackoff fn config) = 4
            \<and> sleeps (retryWithExponentialBackoff fn config) = [1000, 2000, 4000]"
  proof
    assume d: "config = noConfig"
    have "backoff_delays defaultRetryConfig 1000 3 = [1000, 2000, 4000]"
      by (simp add: defaultRetryConfig_def numeral_3_eq_3 next_delay_def jsMultiply_def
          roundToDouble_def isSafeInteger_def)
    with c1 c3 d show "calls (retryWithExponentialBackoff fn config) = 4
            \<and> sleeps (retryWithExponentialBackoff fn config) = [1000, 2000, 4000]"
      by (simp add: mergeConfig_noConfig defaultRetryConfig_def)
  qed
  from c1 c2 c3' c3'' c4 c5 c6 show ?thesis by (intro conjI)
qed

text \<open>Under the defaults, against an operation that always answers 503: four
  invocations, sleeps of 1000, 2000 and 4000 ms, the 503 thrown.\<close>

theorem retry_exhausted_witness:
  "calls (retryWithExponentialBackoff (alwaysFails (httpError 503) :: nat \<Rightarrow> jsval + string) noConfig) = 4
   \<and> result (retryWithExponentialBackoff (alwaysFails (httpError 503) :: nat \<Rightarrow> jsval + string) noConfig)
       = Inl (httpError 503)
   \<and> sleeps (retryWithExponentialBackoff (alwaysFails (httpError 503) :: nat \<Rightarrow> jsval + string) noConfig)
       = [1000, 2000, 4000]"
proof -
  let ?fn = "alwaysFails (httpError 503) :: nat \<Rightarrow> jsval + string"
  have m: "(0::int) \<le> r_maxRetries (mergeConfig noConfig)"
    by (simp add: mergeConfig_noConfig defaultRetryConfig_def)
  have r: "\<forall>i \<le> nat (r_maxRetries (mergeConfig noConfig)).
           \<exists>e. ?fn i = Inl e \<and> isRetryableError e (r_retryableStatusCodes (mergeConfig noConfig))"
    by (simp add: mergeConfig_noConfig defaultRetryConfig_def isRetryableError_def httpError_def
        alwaysFails_def)
  have p: "?fn 3 = Inl (httpError 503)" by (simp add: alwaysFails_def)
  show ?thesis
    using retry_exhausted [OF m r] p
    by (simp add: mergeConfig_noConfig defaultRetryConfig_def)
qed

text \<open>Not every sleep is capped, and a negative \<^verbatim>\<open>maxRetries\<close> is outside the count.
  With \<^verbatim>\<open>{ initialDelayMs: 20000 }\<close> the first sleep is 20000 ms, above the
  \<^verbatim>\<open>maxDelayMs\<close> of 10000. With \<^verbatim>\<open>{ maxRetries: -2 }\<close> the operation is never invoked,
  which is not \<^verbatim>\<open>maxRetries + 1\<close> times, and \<^verbatim>\<open>undefined\<close> is thrown.\<close>

theorem retry_exhausted_counterexample:
  "sleeps (retryWithExponentialBackoff (alwaysFails (httpError 503) :: nat \<Rightarrow> jsval + string)
       (noConfig \<lparr> initialDelayMs := Some 20000 \<rparr>)) = [20000, 10000, 10000]
   \<and> r_maxDelayMs (mergeConfig (noConfig \<lparr> initialDelayMs := Some 20000 \<rparr>)) = 10000
   \<and> \<not> (20000 \<le> r_maxDelayMs (mergeConfig (noConfig \<lparr> initialDelayMs := Some 20000 \<rparr>)))
   \<and> calls (retryWithExponentialBackoff (alwaysFails (httpError 503) :: nat \<Rightarrow> jsval + string)
       (noConfig \<lparr> maxRetries := Some (- 2) \<rparr>)) = 0
   \<and> r_maxRetries (mergeConfig (noConfig \<lparr> maxRetries := Some (- 2) \<rparr>)) + 1 = - 1
   \<and> result (retryWithExponentialBackoff (alwaysFails (httpError 503) :: nat \<Rightarrow> jsval + string)
       (noConfig \<lparr> maxRetries := Some (- 2) \<rparr>)) = Inl JUndefined"
  by code_simp

section \<open>Properties of the tool call enforcer\<close>

text \<open>A successful match of one of the four patterns always fills group 1, so
  \<^verbatim>\<open>extractParams\<close> never throws and the \<^verbatim>\<open>catch\<close> branch of the loop is dead.\<close>

lemma rmatch_keeps_group:
  "g \<noteq> None \<Longrightarrow> (s', g') \<in> set (rmatch r (s, g)) \<Longrightarrow> g' \<noteq> None"
proof (induction r arbitrary: s g s' g')
  case (Lit l) then show ?case by (auto split: option.splits)
next
  case (CharClass p) then show ?case by (auto split: if_splits list.splits)
next
  case (Plus p) then show ?case by auto
next
  case (Opt r)
  from Opt.prems(2) have "(s', g') \<in> set (rmatch r (s, g)) \<or> (s', g') = (s, g)" by auto
  then show ?case using Opt.IH [OF Opt.prems(1)] Opt.prems(1) by blast
next
  case (Alt r1 r2)
  from Alt.prems(2) have "(s', g') \<in> set (rmatch r1 (s, g)) \<or> (s', g') \<in> set (rmatch r2 (s, g))"
    by simp
  then show ?case using Alt.IH(1) [OF Alt.prems(1)] Alt.IH(2) [OF Alt.prems(1)] by blast
next
  case (Seq r1 r2)
  from Seq.prems(2) obtain s1 g1 where
    m1: "(s1, g1) \<in> set (rmatch r1 (s, g))" and m2: "(s', g') \<in> set (rmatch r2 (s1, g1))"
    by auto
  from Seq.IH(1) [OF Seq.prems(1) m1] have "g1 \<noteq> None" .
  from Seq.IH(2) [OF this m2] show ?case .
next
  case (Group r) then show ?case by auto
qed


lemma rmatch_sets_group:
  "always_captures r \<Longrightarrow> (s', g') \<in> set (rmatch r (s, g)) \<Longrightarrow> g' \<noteq> None"
proof (induction r arbitrary: s g s' g')
  case (Alt r1 r2)
  from Alt.prems(2) have "(s', g') \<in> set (rmatch r1 (s, g)) \<or> (s', g') \<in> set (rmatch r2 (s, g))"
    by simp
  moreover from Alt.prems(1) have "always_captures r1" "always_captures r2" by simp_all
  ultimately show ?case using Alt.IH by blast
next
  case (Seq r1 r2)
  from Seq.prems(2) obtain s1 g1 where
    m1: "(s1, g1) \<in> set (rmatch r1 (s, g))" and m2: "(s', g') \<in> set (rmatch r2 (s1, g1))"
    by auto
  show ?case
  proof (cases "always_captures r2")
    case True
    from Seq.IH(2) [OF True m2] show ?thesis .
  next
    case False
    with Seq.prems(1) have "always_captures r1" by simp
    from Seq.IH(1) [OF this m1] have "g1 \<noteq> None" .
    from rmatch_keeps_group [OF this m2] show ?thesis .
  qed
next
  case (Group r) then show ?case by auto
qed simp_all

lemma match_at_group:
  assumes "always_captures r" and "match_at r s = Some m"
  shows "snd m \<noteq> None"
proof -
  from assms(2) obtain rest g tl where
    r: "rmatch r (s, None) = (rest, g) # tl" and m: "m = (take (length s - length rest) s, g)"
    by (auto simp: match_at_def split: list.splits)
  from r have "(rest, g) \<in> set (rmatch r (s, None))" by simp
  from rmatch_sets_group [OF assms(1) this] m show ?thesis by simp
qed

lemma regex_match_group:
  "always_captures r \<Longrightarrow> regex_match r s = Some m \<Longrightarrow> snd m \<noteq> None"
proof (induction s)
  case Nil
  then show ?case using match_at_group [of r "[]" m] by simp
next
  case (Cons x xs)
  show ?case
  proof (cases "match_at r (x # xs)")
    case None
    with Cons show ?thesis by simp
  next
    case (Some m')
    with Cons.prems(2) have "m' = m" by simp
    with Some match_at_group [OF Cons.prems(1), of "x # xs" m] show ?thesis by simp
  qed
qed

lemma toolCallPatterns_capture:
  "p \<in> set toolCallPatterns \<Longrightarrow> always_captures (pattern p)"
proof -
  have "always_captures (pattern runPattern)"
    by (simp add: runPattern_def seqs_def quotedArg_def)
  moreover have "always_captures (pattern createPattern)"
    by (simp add: createPattern_def seqs_def quotedArg_def)
  moreover have "always_captures (pattern editPattern)"
    by (simp add: editPattern_def seqs_def quotedArg_def)
  moreover have "always_captures (pattern readPattern)"
    by (simp add: readPattern_def seqs_def quotedArg_def)
  moreover assume "p \<in> set toolCallPatterns"
  ultimately show ?thesis by (auto simp: toolCallPatterns_def)
qed

lemma toolCallPatterns_extractParams:
  "p \<in> set toolCallPatterns \<Longrightarrow>
     extractParams p = extractGroup1 ''command'' \<or> extractParams p = extractGroup1 ''uri''"
  by (auto simp: toolCallPatterns_def runPattern_def createPattern_def editPattern_def
      readPattern_def)

lemma toolCallPatterns_extract:
  assumes "p \<in> set toolCallPatterns" and "regex_match (pattern p) t = Some m"
  shows "\<exists>key g. snd m = Some g \<and> extractParams p m t = Inr [(key, trim g)]"
proof -
  from regex_match_group [OF toolCallPatterns_capture [OF assms(1)] assms(2)]
  obtain g where g: "snd m = Some g" by auto
  from toolCallPatterns_extractParams [OF assms(1)] g show ?thesis
    by (auto simp: extractGroup1_def)
qed

lemma try_patterns_no_match:
  "\<forall>q \<in> set ps. regex_match (pattern q) t = None \<Longrightarrow> try_patterns ps uuids n t = (None, n)"
  by (induction ps) simp_all

lemma try_patterns_first_match:
  assumes "\<forall>q \<in> set pre. regex_match (pattern q) t = None"
    and "regex_match (pattern p) t = Some m"
    and "extractParams p m t = Inr params"
  shows "try_patterns (pre @ p # post) uuids n t =
           (Some \<lparr> name = toolName p, rawParams = params, doneParams = map fst params,
                   id_field = uuids n, isDone = False \<rparr>, Suc n)"
  using assms by (induction pre) simp_all

lemma try_patterns_result:
  "try_patterns ps uuids n t = (Some tc, n') \<Longrightarrow>
     (\<exists>p \<in> set ps. name tc = toolName p) \<and> doneParams tc = map fst (rawParams tc)
     \<and> \<not> isDone tc \<and> id_field tc = uuids n \<and> n' = Suc n"
proof (induction ps)
  case Nil
  then show ?case by simp
next
  case (Cons p ps)
  show ?case
  proof (cases "regex_match (pattern p) t")
    case None
    with Cons show ?thesis by simp
  next
    case (Some m)
    show ?thesis
    proof (cases "extractParams p m t")
      case (Inl e)
      with Some Cons show ?thesis by simp
    next
      case (Inr params)
      with Some Cons.prems have
        "tc = \<lparr> name = toolName p, rawParams = params, doneParams = map fst params,
                   id_field = uuids n, isDone = False \<rparr>" "n' = Suc n" by simp_all
      then show ?thesis by simp
    qed
  qed
qed

lemma toolCallPatterns_names:
  "p \<in> set toolCallPatterns \<Longrightarrow>
     toolName p \<in> {''run_command'', ''create_file_or_folder'', ''read_file''}"
  by (auto simp: toolCallPatterns_def runPattern_def createPattern_def editPattern_def
      readPattern_def)

text \<open>Successive tool calls get successive identifiers of the generator, hence
  different ones when the generator does not repeat itself.\<close>

lemma enforceToolCall_ids_distinct:
  assumes "inj uuids"
    and "enforceToolCall uuids n t1 mode1 = (Some a, n1)"
    and "enforceToolCall uuids n1 t2 mode2 = (Some b, n2)"
  shows "id_field a \<noteq> id_field b"
proof -
  from assms(2) have "try_patterns toolCallPatterns uuids n t1 = (Some a, n1)"
    by (simp add: enforceToolCall_def split: if_splits)
  from try_patterns_result [OF this] have a: "id_field a = uuids n" "n1 = Suc n" by simp_all
  from assms(3) have "try_patterns toolCallPatterns uuids n1 t2 = (Some b, n2)"
    by (simp add: enforceToolCall_def split: if_splits)
  from try_patterns_result [OF this] have "id_field b = uuids n1" by simp
  with a assms(1) show ?thesis by (simp add: inj_eq)
qed

text \<open>
  C7. \<^verbatim>\<open>enforceToolCall(fullText, chatMode)\<close> returns \<^verbatim>\<open>null\<close> whenever
  \<^verbatim>\<open>chatMode\<close> is not \<^verbatim>\<open>'agent'\<close>, and whenever the text is shorter than 20
  characters; no candidate is synthesized then, and no identifier is generated.
\<close>

theorem enforceToolCall_inactive:
  "chatMode \<noteq> Some ''agent'' \<or> length fullText < 20 \<Longrightarrow>
     enforceToolCall uuids n fullText chatMode = (None, n)"
  by (auto simp: enforceToolCall_def)

text \<open>A text that names a command, outside agent mode and without a mode; and a text
  of 15 characters in agent mode.\<close>

theorem enforceToolCall_inactive_witness:
  "enforceToolCall sampleUuids 0 ''I will run npm install now'' (Some ''normal'') = (None, 0)
   \<and> enforceToolCall sampleUuids 0 ''I will run npm install now'' None = (None, 0)
   \<and> enforceToolCall sampleUuids 0 ''run npm install'' (Some ''agent'') = (None, 0)"
  using enforceToolCall_inactive [of "Some ''normal''" "''I will run npm install now''" sampleUuids 0]
    enforceToolCall_inactive [of None "''I will run npm install now''" sampleUuids 0]
    enforceToolCall_inactive [of "Some ''agent''" "''run npm install''" sampleUuids 0]
  by simp

text \<open>
  C8. In agent mode, on a text of at least 20 characters, \<^verbatim>\<open>enforceToolCall\<close> goes
  through the pattern table in its order. If no pattern matches it returns \<^verbatim>\<open>null\<close>.
  Otherwise it returns the tool call of the first pattern that matches, whatever the
  later patterns would do: the pattern's tool name, the trimmed group 1 as its one
  parameter, an identifier obtained from one call of the generator, and
  \<^verbatim>\<open>isDone: false\<close>.
\<close>

theorem enforceToolCall_first_match:
  assumes "chatMode = Some ''agent''" and "20 \<le> length fullText"
  shows "((\<forall>q \<in> set toolCallPatterns. regex_match (pattern q) fullText = None) \<longrightarrow>
            enforceToolCall uuids n fullText chatMode = (None, n))
       \<and> (\<forall>pre p post m.
            toolCallPatterns = pre @ p # post
            \<and> (\<forall>q \<in> set pre. regex_match (pattern q) fullText = None)
            \<and> regex_match (pattern p) fullText = Some m \<longrightarrow>
            (\<exists>key g. snd m = Some g
               \<and> extractParams p m fullText = Inr [(key, trim g)]
               \<and> enforceToolCall uuids n fullText chatMode =
                   (Some \<lparr> name = toolName p, rawParams = [(key, trim g)], doneParams = [key],
                           id_field = uuids n, isDone = False \<rparr>, Suc n)))"
proof -
  have e: "enforceToolCall uuids n fullText chatMode = try_patterns toolCallPatterns uuids n fullText"
    using assms by (simp add: enforceToolCall_def)
  have none: "(\<forall>q \<in> set toolCallPatterns. regex_match (pattern q) fullText = None) \<longrightarrow>
            enforceToolCall uuids n fullText chatMode = (None, n)"
    unfolding e using try_patterns_no_match by blast
  have first: "\<exists>key g. snd m = Some g
               \<and> extractParams p m fullText = Inr [(key, trim g)]
               \<and> enforceToolCall uuids n fullText chatMode =
                   (Some \<lparr> name = toolName p, rawParams = [(key, trim g)], doneParams = [key],
                           id_field = uuids n, isDone = False \<rparr>, Suc n)"
    if split: "toolCallPatterns = pre @ p # post"
      and pre: "\<forall>q \<in> set pre. regex_match (pattern q) fullText = None"
      and m: "regex_match (pattern p) fullText = Some m"
    for pre p post m
  proof -
    have "p \<in> set (pre @ p # post)" by simp
    with split have "p \<in> set toolCallPatterns" by simp
    from toolCallPatterns_extract [OF this m] obtain key g where
      g: "snd m = Some g" and x: "extractParams p m fullText = Inr [(key, trim g)]" by blast
    from try_patterns_first_match [OF pre m x, of post uuids n]
    have "enforceToolCall uuids n fullText chatMode =
           (Some \<lparr> name = toolName p, rawParams = [(key, trim g)], doneParams = [key],
                   id_field = uuids n, isDone = False \<rparr>, Suc n)"
      unfolding e split by simp
    with g x show ?thesis by blast
  qed
  from none first show ?thesis by blast
qed

text \<open>A text that the create pattern and the read pattern both match: the create
  pattern stands first in the table and wins. A text of 20 characters that no pattern
  matches.\<close>

theorem enforceToolCall_first_match_witness:
  "enforceToolCall sampleUuids 0 ''create file a and read file b'' (Some ''agent'')
     = (Some \<lparr> name = ''create_file_or_folder'',
               rawParams = [(''uri'', ''a and read file b'')],
               doneParams = [''uri''], id_field = ''uuid-'', isDone = False \<rparr>, 1)
   \<and> regex_match (pattern readPattern) ''create file a and read file b''
       = Some (''read file b'', Some ''b'')
   \<and> enforceToolCall sampleUuids 0 ''Hello, how are you?!'' (Some ''agent'') = (None, 0)"
proof -
  have trim_sample_text: "trim ''a and read file b'' = ''a and read file b''" by code_simp
  let ?t = "''create file a and read file b''"
  let ?m = "(''create file a and read file b'',
             Some ''a and read file b'')"
  let ?h = "''Hello, how are you?!''"
  have len: "20 \<le> length ?t" "20 \<le> length ?h" by simp_all
  have r1: "regex_match (pattern runPattern) ?t = None" by code_simp
  have r2: "regex_match (pattern createPattern) ?t = Some ?m" by code_simp
  have r4: "regex_match (pattern readPattern) ?t = Some (''read file b'', Some ''b'')"
    by code_simp
  have split: "toolCallPatterns = [runPattern] @ createPattern # [editPattern, readPattern]"
    by (simp add: toolCallPatterns_def)
  have pre: "\<forall>q \<in> set [runPattern]. regex_match (pattern q) ?t = None" using r1 by simp
  from enforceToolCall_first_match [OF refl len(1), of sampleUuids 0] split pre r2
  obtain key g where "snd ?m = Some g"
    and "extractParams createPattern ?m ?t = Inr [(key, trim g)]"
    and run: "enforceToolCall sampleUuids 0 ?t (Some ''agent'') =
       (Some \<lparr> name = toolName createPattern, rawParams = [(key, trim g)], doneParams = [key],
               id_field = sampleUuids 0, isDone = False \<rparr>, Suc 0)"
    by blast
  then have "g = ''a and read file b''" "key = ''uri''"
    by (simp_all add: createPattern_def extractGroup1_def)
  with run have c1: "enforceToolCall sampleUuids 0 ?t (Some ''agent'')
     = (Some \<lparr> name = ''create_file_or_folder'',
               rawParams = [(''uri'', ''a and read file b'')],
               doneParams = [''uri''], id_field = ''uuid-'', isDone = False \<rparr>, 1)"
    by (simp add: trim_sample_text createPattern_def sampleUuids_def)
  have "\<forall>q \<in> set toolCallPatterns. regex_match (pattern q) ?h = None"
  proof -
    have "regex_match (pattern runPattern) ?h = None" by code_simp
    moreover have "regex_match (pattern createPattern) ?h = None" by code_simp
    moreover have "regex_match (pattern editPattern) ?h = None" by code_simp
    moreover have "regex_match (pattern readPattern) ?h = None" by code_simp
    ultimately show ?thesis by (simp add: toolCallPatterns_def)
  qed
  with enforceToolCall_first_match [OF refl len(2), of sampleUuids 0]
  have c3: "enforceToolCall sampleUuids 0 ?h (Some ''agent'') = (None, 0)" by blast
  from c1 r4 c3 show ?thesis by blast
qed

text \<open>
  C10. Every tool call that \<^verbatim>\<open>enforceToolCall\<close> returns is named
  \<^verbatim>\<open>run_command\<close>, \<^verbatim>\<open>create_file_or_folder\<close> or \<^verbatim>\<open>read_file\<close>; its
  \<^verbatim>\<open>doneParams\<close> are exactly the keys of its \<^verbatim>\<open>rawParams\<close>, while the call itself
  carries \<^verbatim>\<open>isDone: false\<close>. When the "edit the file" pattern is the first to match,
  the call is a \<^verbatim>\<open>read_file\<close> of the path, not an edit.
\<close>

theorem enforceToolCall_candidate:
  "(enforceToolCall uuids n fullText chatMode = (Some tc, n') \<longrightarrow>
      name tc \<in> {''run_command'', ''create_file_or_folder'', ''read_file''}
      \<and> doneParams tc = map fst (rawParams tc)
      \<and> \<not> isDone tc)
   \<and> (chatMode = Some ''agent'' \<and> 20 \<le> length fullText
      \<and> regex_match (pattern runPattern) fullText = None
      \<and> regex_match (pattern createPattern) fullText = None
      \<and> regex_match (pattern editPattern) fullText = Some m \<longrightarrow>
      (\<exists>g. snd m = Some g
         \<and> enforceToolCall uuids n fullText chatMode =
             (Some \<lparr> name = ''read_file'', rawParams = [(''uri'', trim g)],
                     doneParams = [''uri''], id_field = uuids n, isDone = False \<rparr>, Suc n)))"
proof -
  have shape: "name tc \<in> {''run_command'', ''create_file_or_folder'', ''read_file''}
      \<and> doneParams tc = map fst (rawParams tc) \<and> \<not> isDone tc"
    if run: "enforceToolCall uuids n fullText chatMode = (Some tc, n')"
  proof -
    from run have "try_patterns toolCallPatterns uuids n fullText = (Some tc, n')"
      by (simp add: enforceToolCall_def split: if_splits)
    from try_patterns_result [OF this] obtain p where
      p: "p \<in> set toolCallPatterns" "name tc = toolName p"
      and rest: "doneParams tc = map fst (rawParams tc)" "\<not> isDone tc" by blast
    from toolCallPatterns_names [OF p(1)] p(2) rest show ?thesis by simp
  qed
  have edit: "\<exists>g. snd m = Some g
         \<and> enforceToolCall uuids n fullText chatMode =
             (Some \<lparr> name = ''read_file'', rawParams = [(''uri'', trim g)],
                     doneParams = [''uri''], id_field = uuids n, isDone = False \<rparr>, Suc n)"
    if mode: "chatMode = Some ''agent''" and len: "20 \<le> length fullText"
      and r1: "regex_match (pattern runPattern) fullText = None"
      and r2: "regex_match (pattern createPattern) fullText = None"
      and r3: "regex_match (pattern editPattern) fullText = Some m"
  proof -
    have "editPattern \<in> set toolCallPatterns" by (simp add: toolCallPatterns_def)
    from regex_match_group [OF toolCallPatterns_capture [OF this] r3]
    obtain g where g: "snd m = Some g" by auto
    then have x: "extractParams editPattern m fullText = Inr [(''uri'', trim g)]"
      by (simp add: editPattern_def extractGroup1_def)
    have pre: "\<forall>q \<in> set [runPattern, createPattern]. regex_match (pattern q) fullText = None"
      using r1 r2 by simp
    have "try_patterns ([runPattern, createPattern] @ editPattern # [readPattern]) uuids n fullText =
           (Some \<lparr> name = toolName editPattern, rawParams = [(''uri'', trim g)],
                   doneParams = map fst [(''uri'', trim g)],
                   id_field = uuids n, isDone = False \<rparr>, Suc n)"
      by (rule try_patterns_first_match [OF pre r3 x])
    then have "enforceToolCall uuids n fullText chatMode =
             (Some \<lparr> name = ''read_file'', rawParams = [(''uri'', trim g)],
                     doneParams = [''uri''], id_field = uuids n, isDone = False \<rparr>, Suc n)"
      using mode len by (simp add: enforceToolCall_def toolCallPatterns_def editPattern_def)
    with g show ?thesis by blast
  qed
  show ?thesis
  proof (rule conjI; rule impI)
    assume "enforceToolCall uuids n fullText chatMode = (Some tc, n')"
    then show "name tc \<in> {''run_command'', ''create_file_or_folder'', ''read_file''}
      \<and> doneParams tc = map fst (rawParams tc) \<and> \<not> isDone tc" by (rule shape)
  next
    assume "chatMode = Some ''agent'' \<and> 20 \<le> length fullText
      \<and> regex_match (pattern runPattern) fullText = None
      \<and> regex_match (pattern createPattern) fullText = None
      \<and> regex_match (pattern editPattern) fullText = Some m"
    then show "\<exists>g. snd m = Some g
         \<and> enforceToolCall uuids n fullText chatMode =
             (Some \<lparr> name = ''read_file'', rawParams = [(''uri'', trim g)],
                     doneParams = [''uri''], id_field = uuids n, isDone = False \<rparr>, Suc n)"
      using edit by (elim conjE)
  qed
qed

text \<open>"Let me edit the file src/app.ts" becomes a \<^verbatim>\<open>read_file\<close> call.\<close>

theorem enforceToolCall_candidate_witness:
  "enforceToolCall sampleUuids 3 ''Let me edit the file src/app.ts '' (Some ''agent'') =
     (Some \<lparr> name = ''read_file'', rawParams = [(''uri'', ''src/app.ts'')],
             doneParams = [''uri''], id_field = ''uuid-xxx'', isDone = False \<rparr>, 4)
   \<and> doneParams \<lparr> name = ''read_file'', rawParams = [(''uri'', ''src/app.ts'')],
             doneParams = [''uri''], id_field = ''uuid-xxx'', isDone = False \<rparr>
       = map fst (rawParams \<lparr> name = ''read_file'', rawParams = [(''uri'', ''src/app.ts'')],
             doneParams = [''uri''], id_field = ''uuid-xxx'', isDone = False \<rparr>)"
proof -
  let ?t = "''Let me edit the file src/app.ts ''"
  let ?m = "(''edit the file src/app.ts '', Some ''src/app.ts '')"
  let ?tc = "\<lparr> name = ''read_file'', rawParams = [(''uri'', ''src/app.ts'')],
             doneParams = [''uri''], id_field = ''uuid-xxx'', isDone = False \<rparr>"
  have "regex_match (pattern runPattern) ?t = None" by code_simp
  moreover have "regex_match (pattern createPattern) ?t = None" by code_simp
  moreover have "regex_match (pattern editPattern) ?t = Some ?m" by code_simp
  moreover have "20 \<le> length ?t" by simp
  ultimately obtain g where "snd ?m = Some g"
    and "enforceToolCall sampleUuids 3 ?t (Some ''agent'') =
             (Some \<lparr> name = ''read_file'', rawParams = [(''uri'', trim g)],
                     doneParams = [''uri''], id_field = sampleUuids 3, isDone = False \<rparr>, Suc 3)"
    using enforceToolCall_candidate [of sampleUuids 3 ?t "Some ''agent''" _ _ ?m] by blast
  moreover have "trim ''src/app.ts '' = ''src/app.ts''" by code_simp
  moreover have "sampleUuids 3 = ''uuid-xxx''" by code_simp
  ultimately have run: "enforceToolCall sampleUuids 3 ?t (Some ''agent'') = (Some ?tc, 4)"
    by simp
  from enforceToolCall_candidate [of sampleUuids 3 ?t "Some ''agent''" ?tc 4,
      THEN conjunct1, rule_format, OF run]
  have "doneParams ?tc = map fst (rawParams ?tc)" by (elim conjE)
  with run show ?thesis by (intro conjI)
qed

section \<open>Properties of the sidebar chat\<close>

text \<open>What \<^verbatim>\<open>onSubmit\<close> does on its own: with a truthy \<open>isRunning\<close> in its closure it
  returns at once; otherwise it calls the service at most once, for the current
  thread.\<close>

lemma onSubmit_running: "isTruthy (isRunning sb) \<Longrightarrow> onSubmit sb forceSubmit = sb"
  by (simp add: onSubmit_def)

lemma onSubmit_calls:
  "serviceCalls (onSubmit sb forceSubmit) = serviceCalls sb
   \<or> (\<exists>call. serviceCalls (onSubmit sb forceSubmit) = serviceCalls sb @ [call]
              \<and> threadId call = currentThreadId sb)"
  by (simp add: onSubmit_def)

text \<open>Every event keeps the invariant of the stream state, and so does every run.\<close>

lemma addUserMessage_invariant:
  "turnInvariant t \<Longrightarrow> addUserMessageAndStreamResponse t msg = Inr t' \<Longrightarrow> turnInvariant t'"
  by (auto simp: turnInvariant_def addUserMessageAndStreamResponse_def split: if_splits)

lemma turnPhase_invariant: "turnInvariant t \<Longrightarrow> turnInvariant (turnPhase t phase)"
  by (simp add: turnInvariant_def turnPhase_def)

lemma turnComplete_invariant: "turnInvariant t \<Longrightarrow> turnInvariant (turnComplete t)"
  by (simp add: turnInvariant_def turnComplete_def)

lemma abortRunning_invariant: "turnInvariant t \<Longrightarrow> turnInvariant (abortRunning t)"
  by (simp add: turnInvariant_def abortRunning_def)

lemma step_invariant:
  assumes "turnInvariant (stream s)"
  shows "turnInvariant (stream (step s e))"
proof (cases e)
  case Render
  with assms show ?thesis by simp
next
  case (Submit forceSubmit)
  show ?thesis
  proof (cases "addUserMessageAndStreamResponse (stream s)
                  (userMessage (last (serviceCalls (onSubmit (sidebar s) forceSubmit))))")
    case (Inl err)
    with Submit assms show ?thesis by simp
  next
    case (Inr t)
    from addUserMessage_invariant [OF assms Inr] have "turnInvariant t" .
    with Submit Inr assms show ?thesis by simp
  qed
next
  case (TurnPhase phase)
  with assms show ?thesis by (simp add: turnPhase_invariant)
next
  case TurnComplete
  with assms show ?thesis by (simp add: turnComplete_invariant)
next
  case Abort
  with assms show ?thesis by (simp add: abortRunning_invariant)
qed

lemma run_invariant:
  "turnInvariant (stream s) \<Longrightarrow> turnInvariant (stream (run s es))"
  by (induction es arbitrary: s) (simp_all add: step_invariant)

text \<open>A turn is started by nothing but a submit that the service accepts, and the
  service accepts none while the thread is running.\<close>

lemma step_submit_while_streaming:
  "isTruthy (streamIsRunning (stream s)) \<Longrightarrow> stream (step s (Submit forceSubmit)) = stream s"
  by (simp add: addUserMessageAndStreamResponse_def)

lemma step_starts_turn:
  assumes "runningTurns (stream s) < runningTurns (stream (step s e))"
  shows "\<not> isTruthy (streamIsRunning (stream s))"
proof
  assume running: "isTruthy (streamIsRunning (stream s))"
  have "runningTurns (stream (step s e)) \<le> runningTurns (stream s)"
  proof (cases e)
    case (Submit forceSubmit)
    with step_submit_while_streaming [OF running] show ?thesis by simp
  next
    case (TurnPhase phase)
    then show ?thesis by (simp add: turnPhase_def)
  next
    case TurnComplete
    then show ?thesis by (simp add: turnComplete_def)
  next
    case Abort
    then show ?thesis by (simp add: abortRunning_def)
  qed simp
  with assms show False by simp
qed

text \<open>
  C1 (amended). For every thread, at most one turn is running at any time: whatever the
  sidebar and the model do, the thread has at most one turn under way, and it is running
  exactly when it has one. A submit made while the thread's stream state is running
  starts no new turn and submits no message, because
  \<^verbatim>\<open>addUserMessageAndStreamResponse\<close> refuses it; a turn starts only from a thread that
  is not running, that is after the running turn has completed or been aborted. When the
  \<open>isRunning\<close> that \<^verbatim>\<open>onSubmit\<close> holds from the last render is truthy, \<^verbatim>\<open>onSubmit\<close>
  does not even call the service and leaves the input as it is.
\<close>

theorem single_running_turn:
  assumes "turnInvariant (stream s)"
  shows "runningTurns (stream (run s es)) \<le> 1
       \<and> (isTruthy (streamIsRunning (stream (run s es))) \<longleftrightarrow> runningTurns (stream (run s es)) = 1)
       \<and> (isTruthy (streamIsRunning (stream s)) \<longrightarrow>
            stream (step s (Submit forceSubmit)) = stream s)
       \<and> (runningTurns (stream s) < runningTurns (stream (step s e)) \<longrightarrow>
            \<not> isTruthy (streamIsRunning (stream s)))
       \<and> (isTruthy (isRunning (sidebar s)) \<longrightarrow> step s (Submit forceSubmit) = s)"
proof -
  from run_invariant [OF assms, of es]
  have c1: "runningTurns (stream (run s es)) \<le> 1"
    and c2: "isTruthy (streamIsRunning (stream (run s es))) \<longleftrightarrow> runningTurns (stream (run s es)) = 1"
    by (simp_all add: turnInvariant_def)
  have c3: "isTruthy (streamIsRunning (stream s)) \<longrightarrow>
            stream (step s (Submit forceSubmit)) = stream s"
    using step_submit_while_streaming by blast
  have c4: "runningTurns (stream s) < runningTurns (stream (step s e)) \<longrightarrow>
            \<not> isTruthy (streamIsRunning (stream s))"
    using step_starts_turn by blast
  have c5: "isTruthy (isRunning (sidebar s)) \<longrightarrow> step s (Submit forceSubmit) = s"
    by (simp add: onSubmit_running)
  from c1 c2 c3 c4 c5 show ?thesis by (intro conjI)
qed

text \<open>From the idle chat: a submit starts a turn; further submits, with or without a
  render in between, leave one turn running and one message submitted; after the turn
  completes and the sidebar renders, the next submit starts the second turn.\<close>

theorem single_running_turn_witness:
  "runningTurns (stream (run idleChat
      [Submit None, Submit (Some ''second''), Render, Submit (Some ''third'')])) = 1
   \<and> userMessages (stream (run idleChat
      [Submit None, Submit (Some ''second''), Render, Submit (Some ''third'')])) = [''first'']
   \<and> step (run idleChat [Submit None, Render]) (Submit (Some ''third''))
       = run idleChat [Submit None, Render]
   \<and> userMessages (stream (run idleChat
      [Submit None, TurnPhase IsRunningType.Tool, TurnComplete, Render, Submit (Some ''next'')]))
       = [''first'', ''next'']"
proof -
  let ?es = "[Submit None, Submit (Some ''second''), Render, Submit (Some ''third'')]"
  have inv: "turnInvariant (stream idleChat)"
    by (simp add: idleChat_def turnInvariant_def)
  have u: "userMessages (stream (run idleChat ?es)) = [''first'']"
    by (simp add: idleChat_def onSubmit_def userMessageOf_def addUserMessageAndStreamResponse_def)
  have t: "isTruthy (streamIsRunning (stream (run idleChat ?es)))"
    by (simp add: idleChat_def onSubmit_def userMessageOf_def addUserMessageAndStreamResponse_def)
  from single_running_turn [OF inv, of ?es] t
  have c1: "runningTurns (stream (run idleChat ?es)) = 1" by blast
  have r: "isTruthy (isRunning (sidebar (run idleChat [Submit None, Render])))"
    by (simp add: idleChat_def onSubmit_def userMessageOf_def addUserMessageAndStreamResponse_def)
  have inv': "turnInvariant (stream (run idleChat [Submit None, Render]))"
    by (rule run_invariant [OF inv])
  from single_running_turn [OF inv', of "[]" "Some ''third''"] r
  have c3: "step (run idleChat [Submit None, Render]) (Submit (Some ''third''))
       = run idleChat [Submit None, Render]" by blast
  have c4: "userMessages (stream (run idleChat
      [Submit None, TurnPhase IsRunningType.Tool, TurnComplete, Render, Submit (Some ''next'')]))
       = [''first'', ''next'']"
    by (simp add: idleChat_def onSubmit_def userMessageOf_def addUserMessageAndStreamResponse_def
        turnPhase_def turnComplete_def)
  from c1 u c3 c4 show ?thesis by (intro conjI)
qed

text \<open>\<^verbatim>\<open>onSubmit\<close> tests the \<open>isRunning\<close> of its closure, not the thread's stream
  state. Two submits with no render between them: the first starts a turn, so the
  thread's stream state is running when the second is made, and the second calls
  \<^verbatim>\<open>addUserMessageAndStreamResponse\<close> all the same. The service refuses it.\<close>

theorem submit_twice_counterexample:
  "isTruthy (streamIsRunning (stream (run idleChat [Submit (Some ''first'')])))
   \<and> map userMessage (serviceCalls (sidebar
        (run idleChat [Submit (Some ''first''), Submit (Some ''second'')])))
       = [''first'', ''second'']
   \<and> refusedCalls (run idleChat [Submit (Some ''first''), Submit (Some ''second'')]) = 1
   \<and> userMessages (stream (run idleChat [Submit (Some ''first''), Submit (Some ''second'')]))
       = [''first'']"
  by (simp add: idleChat_def onSubmit_def userMessageOf_def addUserMessageAndStreamResponse_def)








section \<open>Properties of tool approval\<close>

lemma latestTool_position:
  "latestTool ms = Some (i, nm, ty) \<Longrightarrow> i < length ms \<and> ms ! i = Tool nm ty"
proof (induction ms arbitrary: i)
  case Nil
  then show ?case by simp
next
  case (Cons m ms)
  show ?case
  proof (cases "latestTool ms")
    case None
    with Cons.prems have "m = Tool nm ty" "i = 0"
      by (simp_all split: ChatMessage.splits)
    then show ?thesis by simp
  next
    case (Some t)
    obtain j nm' ty' where t: "t = (j, nm', ty')" by (cases t)
    with Some Cons.prems have "i = Suc j" "nm' = nm" "ty' = ty" by simp_all
    with Some t Cons.IH [of j] show ?thesis by simp
  qed
qed

lemma latestTool_update:
  "latestTool ms = Some (i, nm, ty) \<Longrightarrow> latestTool (ms [i := Tool nm ty']) = Some (i, nm, ty')"
proof (induction ms arbitrary: i)
  case Nil
  then show ?case by simp
next
  case (Cons m ms)
  show ?case
  proof (cases "latestTool ms")
    case None
    with Cons.prems have "m = Tool nm ty" "i = 0"
      by (simp_all split: ChatMessage.splits)
    with None show ?thesis by simp
  next
    case (Some t)
    obtain j nm' ty' where t: "t = (j, nm', ty')" by (cases t)
    with Some Cons.prems have "i = Suc j" "nm' = nm" "ty' = ty" by simp_all
    with Some t Cons.IH [of j] show ?thesis by simp
  qed
qed

lemma resolve_not_requested:
  "allThreads tid = Some th \<Longrightarrow> latestToolType (messages th) \<noteq> Some tool_request \<Longrightarrow>
     resolveLatestToolRequest newType allThreads tid = Inr allThreads"
  by (auto simp: resolveLatestToolRequest_def latestToolType_def
      split: option.splits ToolMessageType.splits)

text \<open>
  C2. For a thread whose latest tool message is not in \<^verbatim>\<open>tool_request\<close> state,
  \<^verbatim>\<open>approveLatestToolRequest\<close> and \<^verbatim>\<open>rejectLatestToolRequest\<close> return normally and
  leave every thread as it is. When the latest tool message is in \<^verbatim>\<open>tool_request\<close>
  state, approval turns that one message to \<^verbatim>\<open>running_now\<close> and rejection turns it to
  \<^verbatim>\<open>rejected\<close>, and it remains the thread's latest tool message.
\<close>

theorem latest_tool_request_resolution:
  assumes "allThreads tid = Some th"
  shows "(latestToolType (messages th) \<noteq> Some tool_request \<longrightarrow>
            approveLatestToolRequest allThreads tid = Inr allThreads
          \<and> rejectLatestToolRequest allThreads tid = Inr allThreads)
       \<and> (latestToolType (messages th) = Some tool_request \<longrightarrow>
            (\<exists>i nm. i < length (messages th) \<and> messages th ! i = Tool nm tool_request
               \<and> approveLatestToolRequest allThreads tid
                   = Inr (allThreads (tid \<mapsto>
                       th \<lparr> messages := (messages th) [i := Tool nm running_now] \<rparr>))
               \<and> latestToolType ((messages th) [i := Tool nm running_now]) = Some running_now
               \<and> rejectLatestToolRequest allThreads tid
                   = Inr (allThreads (tid \<mapsto>
                       th \<lparr> messages := (messages th) [i := Tool nm rejected] \<rparr>))
               \<and> latestToolType ((messages th) [i := Tool nm rejected]) = Some rejected))"
proof (rule conjI; rule impI)
  assume "latestToolType (messages th) \<noteq> Some tool_request"
  then show "approveLatestToolRequest allThreads tid = Inr allThreads
          \<and> rejectLatestToolRequest allThreads tid = Inr allThreads"
    using resolve_not_requested [of allThreads tid th] assms
    by (simp add: approveLatestToolRequest_def rejectLatestToolRequest_def)
next
  assume req: "latestToolType (messages th) = Some tool_request"
  from req obtain j nmj where l: "latestTool (messages th) = Some (j, nmj, tool_request)"
    by (auto simp: latestToolType_def)
  have "resolveLatestToolRequest running_now allThreads tid
      = Inr (allThreads (tid \<mapsto> th \<lparr> messages := (messages th) [j := Tool nmj running_now] \<rparr>))"
    "resolveLatestToolRequest rejected allThreads tid
      = Inr (allThreads (tid \<mapsto> th \<lparr> messages := (messages th) [j := Tool nmj rejected] \<rparr>))"
    using assms l by (simp_all add: resolveLatestToolRequest_def)
  moreover from latestTool_position [OF l] have "j < length (messages th)"
    "messages th ! j = Tool nmj tool_request" by simp_all
  moreover from latestTool_update [OF l]
  have "latestToolType ((messages th) [j := Tool nmj running_now]) = Some running_now"
    "latestToolType ((messages th) [j := Tool nmj rejected]) = Some rejected"
    by (simp_all add: latestToolType_def)
  ultimately show "\<exists>i nm. i < length (messages th) \<and> messages th ! i = Tool nm tool_request
               \<and> approveLatestToolRequest allThreads tid
                   = Inr (allThreads (tid \<mapsto>
                       th \<lparr> messages := (messages th) [i := Tool nm running_now] \<rparr>))
               \<and> latestToolType ((messages th) [i := Tool nm running_now]) = Some running_now
               \<and> rejectLatestToolRequest allThreads tid
                   = Inr (allThreads (tid \<mapsto>
                       th \<lparr> messages := (messages th) [i := Tool nm rejected] \<rparr>))
               \<and> latestToolType ((messages th) [i := Tool nm rejected]) = Some rejected"
    unfolding approveLatestToolRequest_def rejectLatestToolRequest_def by blast
qed

text \<open>A thread whose tool has succeeded is left alone; a thread that awaits approval
  has its request set running by approval and rejected by rejection.\<close>

theorem latest_tool_request_resolution_witness:
  "approveLatestToolRequest [''thread-1'' \<mapsto> settledThread] ''thread-1''
     = Inr [''thread-1'' \<mapsto> settledThread]
   \<and> rejectLatestToolRequest [''thread-1'' \<mapsto> settledThread] ''thread-1''
     = Inr [''thread-1'' \<mapsto> settledThread]
   \<and> approveLatestToolRequest [''thread-1'' \<mapsto> awaitingThread] ''thread-1''
     = Inr [''thread-1'' \<mapsto> awaitingThread
         \<lparr> messages := [User ''run the tests'', Tool ''run_command'' running_now] \<rparr>]
   \<and> rejectLatestToolRequest [''thread-1'' \<mapsto> awaitingThread] ''thread-1''
     = Inr [''thread-1'' \<mapsto> awaitingThread
         \<lparr> messages := [User ''run the tests'', Tool ''run_command'' rejected] \<rparr>]"
proof -
  let ?S = "[''thread-1'' \<mapsto> settledThread]"
  let ?A = "[''thread-1'' \<mapsto> awaitingThread]"
  have s: "?S ''thread-1'' = Some settledThread" and a: "?A ''thread-1'' = Some awaitingThread"
    by simp_all
  have ls: "latestToolType (messages settledThread) \<noteq> Some tool_request"
    by (simp add: settledThread_def latestToolType_def)
  have la: "latestToolType (messages awaitingThread) = Some tool_request"
    by (simp add: awaitingThread_def latestToolType_def)
  from latest_tool_request_resolution [of ?S "''thread-1''" settledThread, OF s] ls
  have c12: "approveLatestToolRequest ?S ''thread-1'' = Inr ?S
     \<and> rejectLatestToolRequest ?S ''thread-1'' = Inr ?S" by blast
  from latest_tool_request_resolution [of ?A "''thread-1''" awaitingThread, OF a] la
  obtain i nm where i: "i < length (messages awaitingThread)"
    and m: "messages awaitingThread ! i = Tool nm tool_request"
    and ap: "approveLatestToolRequest ?A ''thread-1''
        = Inr (?A (''thread-1'' \<mapsto>
            awaitingThread \<lparr> messages := (messages awaitingThread) [i := Tool nm running_now] \<rparr>))"
    and rj: "rejectLatestToolRequest ?A ''thread-1''
        = Inr (?A (''thread-1'' \<mapsto>
            awaitingThread \<lparr> messages := (messages awaitingThread) [i := Tool nm rejected] \<rparr>))"
    by blast
  from i have "i = 0 \<or> i = 1" by (auto simp: awaitingThread_def)
  with m have i1: "i = 1" and nm: "nm = ''run_command''"
    by (auto simp: awaitingThread_def)
  have u: "(messages awaitingThread) [1 := Tool ''run_command'' ty]
             = [User ''run the tests'', Tool ''run_command'' ty]" for ty
    by (simp add: awaitingThread_def)
  from ap rj show ?thesis unfolding i1 nm u using c12 by simp
qed

end
